theory Spec2Isabelle
  imports Main
begin

section \<open>Data model of a game room\<close>

text \<open>
  The server keeps one JavaScript object per room. A token is
  \<^verbatim>\<open>{ id: 'T1', position: -1, isFinished: false }\<close>; position \<open>-1\<close> is the base,
  a non-negative position is an index into the path of the owner's colour.
\<close>

record token =
  tokId :: string
  position :: int
  isFinished :: bool

text \<open>
  A player object. \<open>color\<close> and \<open>tokens\<close> are absent (\<open>undefined\<close>, here \<open>None\<close>) on
  players created by some of the join handlers until the match is started;
  \<open>finishPosition\<close> is absent until the player has finished.
\<close>

record player =
  playerId :: string
  name :: string
  color :: "string option"
  tokens :: "token list option"
  consecutiveSixes :: int
  finished :: bool
  finishPosition :: "nat option"

record finish_entry =
  fePlayerId :: string
  fePlayerName :: string
  fePlayerColor :: "string option"
  fePosition :: nat

record winner_position =
  wpPosition :: nat
  wpPlayerName :: string
  wpPlayerColor :: "string option"

text \<open>
  The room object. \<open>turn\<close> is a reference to one of the player objects and is kept as
  the index of that player in \<open>players\<close>. \<open>turnOrder\<close> is an array of player ids or
  absent. The flags \<open>isRolling\<close>, \<open>awaitingMove\<close>, \<open>killExtraTurn\<close>, \<open>homeExtraTurn\<close> and
  \<open>gameEnded\<close> are only ever tested for truthiness, so an absent flag is \<open>False\<close>;
  \<open>moveValidated\<close> is compared with \<open>=== false\<close>, so its absence is kept apart.
  An absent \<open>finishOrder\<close> is replaced by the empty array before its first use and is
  kept as the empty list.
\<close>

record room =
  players :: "player list"
  dice :: int
  turnIndex :: nat
  turnOrder :: "string list option"
  turn :: "nat option"
  isRolling :: bool
  awaitingMove :: bool
  moveValidated :: "bool option"
  killExtraTurn :: bool
  homeExtraTurn :: bool
  finishOrder :: "finish_entry list"
  gameEnded :: bool
  winners :: "winner_position list"

text \<open>
  The board geometry is imported from \<^verbatim>\<open>./paths.js\<close> (\<^verbatim>\<open>getPath\<close>, \<^verbatim>\<open>safeCells\<close>) and is
  a parameter of the model: \<open>getPath\<close> gives the ordered cells of a colour,
  \<open>safeCells\<close> the cells on which nothing is captured.
\<close>

record 'c geometry =
  getPath :: "string option \<Rightarrow> 'c list"
  safeCells :: "'c list"

text \<open>
  A token reference sent by a client: a number, a string such as \<^verbatim>\<open>'T1'\<close>, or
  anything else (\<open>null\<close>, \<open>undefined\<close>).
\<close>

datatype token_ref = TokNum int | TokStr string | TokOther

text \<open>What a handler emits. Payloads carry the fields the server fills in.\<close>

datatype 'c event =
    ErrorMessage string
  | RoomErrorMessage string
  | DiceRolled int string bool
  | DiceRolledAll int string bool
  | GameState
  | GameStateAfter int
  | PlayerMoved string "string option" token_ref int "int option" "int list" int
  | PlayerFinished finish_entry
  | TokenKilled "string option" nat "string option" "'c option"
  | GameEnded "winner_position list"

text \<open>
  A handler either runs to its end or stops at an uncaught \<^verbatim>\<open>TypeError\<close> (a property
  read on \<open>undefined\<close>); in both cases the room is left as mutated so far.
\<close>

datatype 'c result = Done room "'c event list" | Thrown room "'c event list"

fun resRoom :: "'c result \<Rightarrow> room" where
  "resRoom (Done r evs) = r"
| "resRoom (Thrown r evs) = r"

fun resEvents :: "'c result \<Rightarrow> 'c event list" where
  "resEvents (Done r evs) = evs"
| "resEvents (Thrown r evs) = evs"

section \<open>JavaScript helpers\<close>

text \<open>\<^verbatim>\<open>xs[i]\<close>: \<open>undefined\<close> outside the array.\<close>

definition at :: "'a list \<Rightarrow> int \<Rightarrow> 'a option" where
  "at xs i = (if 0 \<le> i \<and> i < int (length xs) then Some (xs ! nat i) else None)"

text \<open>\<^verbatim>\<open>xs.find(P)\<close>, returning the index of the element found.\<close>

fun findIndex :: "('a \<Rightarrow> bool) \<Rightarrow> 'a list \<Rightarrow> nat option" where
  "findIndex P [] = None"
| "findIndex P (x # xs) = (if P x then Some 0 else map_option Suc (findIndex P xs))"

text \<open>
  \<^verbatim>\<open>parseInt(s, 10)\<close>: leading white space, an optional sign, then the longest run of
  decimal digits; \<open>NaN\<close> (here \<open>None\<close>) when there is no digit. A string is a list of
  code units below 256. The white space and line terminators of JavaScript in that range
  are TAB, LF, VT, FF, CR, the space and the no-break space U+00A0; the others (U+1680,
  U+2000 to U+200A, U+2028, U+2029, U+202F, U+205F, U+3000, U+FEFF) are not values of
  \<open>char\<close>.
\<close>

definition isWhiteSpace :: "char \<Rightarrow> bool" where
  "isWhiteSpace c =
     (c \<in> set [CHR 0x09, CHR 0x0A, CHR 0x0B, CHR 0x0C, CHR 0x0D, CHR '' '', CHR 0xA0])"

definition isDigit :: "char \<Rightarrow> bool" where
  "isDigit c = (c \<in> set ''0123456789'')"

definition digitVal :: "char \<Rightarrow> int" where
  "digitVal c = int (of_char c) - 48"

definition digitsVal :: "string \<Rightarrow> int" where
  "digitsVal ds = foldl (\<lambda>acc c. 10 * acc + digitVal c) 0 ds"

definition parseInt :: "string \<Rightarrow> int option" where
  "parseInt s =
     (let s1 = dropWhile isWhiteSpace s;
          neg = (s1 \<noteq> [] \<and> hd s1 = CHR ''-'');
          s2 = (if s1 \<noteq> [] \<and> (hd s1 = CHR ''-'' \<or> hd s1 = CHR ''+'') then tl s1 else s1);
          ds = takeWhile isDigit s2
      in if ds = [] then None
         else Some (if neg then - digitsVal ds else digitsVal ds))"

text \<open>\<^verbatim>\<open>ts.every((t) => t.isFinished === true)\<close>\<close>

definition everyFinished :: "token list \<Rightarrow> bool" where
  "everyFinished ts = list_all isFinished ts"

text \<open>\<^verbatim>\<open>room.players[i]?.tokens?.[j]\<close>: token \<open>j\<close> of player \<open>i\<close>, when there is one.\<close>

definition tokenAt :: "room \<Rightarrow> nat \<Rightarrow> nat \<Rightarrow> token option" where
  "tokenAt r i j =
     (case at (players r) (int i) of
        None \<Rightarrow> None
      | Some p \<Rightarrow> (case tokens p of None \<Rightarrow> None | Some ts \<Rightarrow> at ts (int j)))"

section \<open>updateRoomTurn\<close>

definition turnLen :: "room \<Rightarrow> nat" where
  "turnLen r = (case turnOrder r of
                  Some order \<Rightarrow> (if order \<noteq> [] then length order else length (players r))
                | None \<Rightarrow> length (players r))"

definition updateRoomTurn :: "room \<Rightarrow> room" where
  "updateRoomTurn r =
     (let idx = turnIndex r in
      case (case turnOrder r of Some order \<Rightarrow> (if order \<noteq> [] then Some order else None)
                              | None \<Rightarrow> None) of
        Some order \<Rightarrow>
          (let pid = order ! (idx mod length order) in
           r\<lparr>turn := (if players r \<noteq> [] then findIndex (\<lambda>p. playerId p = pid) (players r)
                       else None)\<rparr>)
      | None \<Rightarrow>
          r\<lparr>turn := (if players r \<noteq> [] then Some (idx mod length (players r)) else None)\<rparr>)"

section \<open>updateTokenPosition\<close>

text \<open>
  The token index: a number is taken as it is, \<^verbatim>\<open>'T<n>'\<close> gives \<open>n - 1\<close>, anything else
  \<open>-1\<close>.
\<close>

definition resolveTokenIndex :: "token_ref \<Rightarrow> int" where
  "resolveTokenIndex tokenId =
     (case tokenId of
        TokNum n \<Rightarrow> n
      | TokStr s \<Rightarrow>
          (if s \<noteq> [] \<and> hd s = CHR ''T''
           then (case parseInt (tl s) of Some n \<Rightarrow> n - 1 | None \<Rightarrow> - 1)
           else - 1)
      | TokOther \<Rightarrow> - 1)"

text \<open>
  The destination the server computes: from the base on a six, index 0; on the board,
  forward by the dice; otherwise the position the client sent, when it is a number.
\<close>

definition desiredIndex :: "int \<Rightarrow> int \<Rightarrow> int option \<Rightarrow> int" where
  "desiredIndex prevPos d clientPos =
     (if prevPos = - 1 \<and> d = 6 then 0
      else if prevPos \<ge> 0 then prevPos + d
      else (case clientPos of Some p \<Rightarrow> p | None \<Rightarrow> prevPos))"

definition setToken :: "room \<Rightarrow> nat \<Rightarrow> nat \<Rightarrow> token \<Rightarrow> room" where
  "setToken r pi ti tok =
     r\<lparr>players := (players r)[pi := (players r ! pi)
          \<lparr>tokens := map_option (\<lambda>ts. ts[ti := tok]) (tokens (players r ! pi))\<rparr>]\<rparr>"

text \<open>
  Reaching the last cell: the token is finished, the home extra turn is granted and,
  when this completes all tokens of the player, the finish order is recorded once per
  player id.
\<close>

definition recordFinish :: "room \<Rightarrow> nat \<Rightarrow> room \<times> 'c event list" where
  "recordFinish r pi =
     (let pl = players r ! pi in
      if (case tokens pl of Some ts \<Rightarrow> everyFinished ts | None \<Rightarrow> False)
      then
        (let r1 = r\<lparr>players := (players r)[pi := pl\<lparr>finished := True\<rparr>]\<rparr> in
         if find (\<lambda>f. fePlayerId f = playerId pl) (finishOrder r1) = None
         then
           (let pos = length (finishOrder r1) + 1;
                entry = \<lparr>fePlayerId = playerId pl, fePlayerName = name pl,
                         fePlayerColor = color pl, fePosition = pos\<rparr>
            in (r1\<lparr>finishOrder := finishOrder r1 @ [entry],
                    players := (players r1)[pi := (players r1 ! pi)\<lparr>finishPosition := Some pos\<rparr>]\<rparr>,
                [PlayerFinished entry]))
         else (r1, []))
      else (r, []))"

text \<open>
  The kill logic. \<open>stackedTokenCount\<close> counts the tokens of the enemy on the position of
  the token under examination; two or more protect each other.
\<close>

definition stackedTokenCount :: "token list \<Rightarrow> int \<Rightarrow> nat" where
  "stackedTokenCount ts pos = length (filter (\<lambda>t. position t = pos \<and> position t \<noteq> - 1) ts)"

definition killStep ::
  "'c geometry \<Rightarrow> string option \<Rightarrow> 'c option \<Rightarrow> nat \<Rightarrow> nat \<Rightarrow> room \<times> 'c event list
     \<Rightarrow> room \<times> 'c event list" where
  "killStep g moverColor landedCell e idx st =
     (let r = fst st; evs = snd st;
          enemy = players r ! e;
          enemyPath = getPath g (color enemy)
      in case tokens enemy of
           None \<Rightarrow> st
         | Some ets \<Rightarrow>
             (let enemyToken = ets ! idx
              in if position enemyToken = - 1 then st
                 else if position enemyToken \<ge> int (length enemyPath) - 6 \<or> isFinished enemyToken
                 then st
                 else if at enemyPath (position enemyToken) = landedCell
                 then (if stackedTokenCount ets (position enemyToken) \<ge> 2 then st
                       else ((setToken r e idx (enemyToken\<lparr>position := - 1, isFinished := False\<rparr>))
                               \<lparr>killExtraTurn := True\<rparr>,
                             evs @ [GameState, TokenKilled (color enemy) idx moverColor landedCell]))
                 else st))"

fun killEnemies ::
  "'c geometry \<Rightarrow> string option \<Rightarrow> 'c option \<Rightarrow> nat list \<Rightarrow> room \<times> 'c event list
     \<Rightarrow> bool \<times> room \<times> 'c event list" where
  "killEnemies g moverColor landedCell [] st = (False, st)"
| "killEnemies g moverColor landedCell (e # es) st =
     (let enemy = players (fst st) ! e in
      if color enemy = moverColor then killEnemies g moverColor landedCell es st
      else (case tokens enemy of
              None \<Rightarrow> (True, st)
            | Some ts \<Rightarrow>
                killEnemies g moverColor landedCell es
                  (fold (killStep g moverColor landedCell e) [0..<length ts] st)))"

text \<open>
  The kill block and the \<open>playerMoved\<close> payload read the moved token through
  \<^verbatim>\<open>player.tokens[tokenId]\<close>, with the reference as the client sent it: a string
  reference reads \<open>undefined\<close>, and the kill block then does nothing.
\<close>

definition readToken :: "player \<Rightarrow> token_ref \<Rightarrow> token option" where
  "readToken pl tokenId =
     (case tokenId of
        TokNum n \<Rightarrow> (case tokens pl of Some ts \<Rightarrow> at ts n | None \<Rightarrow> None)
      | _ \<Rightarrow> None)"

definition killCheck ::
  "'c geometry \<Rightarrow> nat \<Rightarrow> token_ref \<Rightarrow> room \<times> 'c event list \<Rightarrow> bool \<times> room \<times> 'c event list" where
  "killCheck g pi tokenId st =
     (let r = fst st; pl = players r ! pi;
          landedIndex = map_option position (readToken pl tokenId)
      in case landedIndex of
           None \<Rightarrow> (False, st)
         | Some li \<Rightarrow>
             if li = - 1 then (False, st)
             else
               (let path = getPath g (color pl);
                    landedCell = at path li;
                    isSafe = (case landedCell of Some c \<Rightarrow> c \<in> set (safeCells g) | None \<Rightarrow> False);
                    isHomeStretch = (li \<ge> int (length path) - 6)
                in if \<not> isSafe \<and> \<not> isHomeStretch
                   then killEnemies g (color pl) landedCell [0..<length (players r)] st
                   else (False, st)))"

text \<open>
  Committing a valid move: the position is written, a token on the last cell is
  finished, and the room is marked as holding a validated move.
\<close>

definition applyMove ::
  "'c geometry \<Rightarrow> room \<Rightarrow> nat \<Rightarrow> token \<Rightarrow> nat \<Rightarrow> int \<Rightarrow> room \<times> 'c event list" where
  "applyMove g r pi tok ti finalIndex =
     (let path = getPath g (color (players r ! pi));
          r1 = setToken r pi ti (tok\<lparr>position := finalIndex\<rparr>);
          (r2, evs2) =
             (if finalIndex = int (length path) - 1
              then recordFinish
                     ((setToken r1 pi ti (tok\<lparr>position := finalIndex, isFinished := True\<rparr>))
                        \<lparr>homeExtraTurn := True\<rparr>) pi
              else (r1, []))
      in (r2\<lparr>moveValidated := Some True\<rparr>, evs2))"

definition commitMove ::
  "'c geometry \<Rightarrow> room \<Rightarrow> nat \<Rightarrow> token_ref \<Rightarrow> token \<Rightarrow> nat \<Rightarrow> int \<Rightarrow> int \<Rightarrow> 'c result" where
  "commitMove g r pi tokenId tok ti prevPos finalIndex =
     (let (r3, evs2) = applyMove g r pi tok ti finalIndex;
          pl3 = players r3 ! pi;
          toPos = map_option position (readToken pl3 tokenId);
          stepsArr = [prevPos + 1 .. (case toPos of Some p \<Rightarrow> p | None \<Rightarrow> - 1)];
          evs3 = evs2 @ [PlayerMoved (playerId pl3) (color pl3) tokenId prevPos toPos stepsArr (dice r3)];
          (threw, r4, evs4) = killCheck g pi tokenId (r3, evs3)
      in if threw then Thrown r4 evs4
         else Done r4 (evs4 @ [GameState, GameStateAfter (max 0 (finalIndex - prevPos) * 300 + 100)]))"

text \<open>
  The handler, from the point where the room is found (for an unknown room it returns at
  once). The range test \<^verbatim>\<open>tokenIndex >= 0 && tokenIndex < player.tokens.length\<close> reads the
  token array only when the index is not negative.
\<close>

definition updateTokenPosition ::
  "'c geometry \<Rightarrow> room \<Rightarrow> string \<Rightarrow> token_ref \<Rightarrow> int option \<Rightarrow> 'c result" where
  "updateTokenPosition g r pid tokenId clientPos =
     (case findIndex (\<lambda>p. playerId p = pid) (players r) of
        None \<Rightarrow> Done r []
      | Some pi \<Rightarrow>
          (let pl = players r ! pi in
           case at (players r) (int (turnIndex r)) of
             None \<Rightarrow> Thrown r []
           | Some currentPlayer \<Rightarrow>
               if playerId currentPlayer \<noteq> pid then Done r [ErrorMessage ''It is not your turn!'']
               else if \<not> awaitingMove r
               then Done r [ErrorMessage ''You cannot move now - your turn has been passed!'']
               else
                 (let tokenIndex = resolveTokenIndex tokenId in
                  if \<not> tokenIndex \<ge> 0 then Done r [ErrorMessage ''Invalid token selected'']
                  else
                    (case tokens pl of
                       None \<Rightarrow> Thrown r []
                     | Some toks \<Rightarrow>
                         if \<not> tokenIndex < int (length toks)
                         then Done r [ErrorMessage ''Invalid token selected'']
                         else
                           (let tok = toks ! nat tokenIndex;
                                path = getPath g (color pl);
                                prevPos = position tok;
                                d = dice r
                            in if isFinished tok
                               then Done r [ErrorMessage
                                      ''This token has already finished and cannot be moved.'']
                               else if clientPos = Some (- 1) \<and> prevPos \<ge> 0
                               then Done r [ErrorMessage
                                      ''Invalid move: cannot move token back to base'']
                               else
                                 (let di = desiredIndex prevPos d clientPos in
                                  if di > int (length path) - 1
                                  then Done r [ErrorMessage
                                         ''Invalid move: must roll exact number to enter home'']
                                  else commitMove g r pi tokenId tok (nat tokenIndex) prevPos di))))))"

section \<open>checkWinCondition\<close>

record win_entry =
  wePlayer :: player
  weIndex :: nat
  weAllFinished :: bool

definition allFinished :: "player \<Rightarrow> bool" where
  "allFinished p = (case tokens p of Some ts \<Rightarrow> ts \<noteq> [] \<and> everyFinished ts | None \<Rightarrow> False)"

definition winnersNeeded :: "nat \<Rightarrow> nat" where
  "winnersNeeded playerCount =
     (if playerCount = 2 then 1 else if playerCount = 3 then 2 else if playerCount = 4 then 3 else 1)"

text \<open>\<^verbatim>\<open>a.player.finishPosition || 999\<close>\<close>

definition finishKey :: "win_entry \<Rightarrow> nat" where
  "finishKey w = (case finishPosition (wePlayer w) of
                    Some n \<Rightarrow> (if n = 0 then 999 else n)
                  | None \<Rightarrow> 999)"

definition finishedPlayers :: "room \<Rightarrow> win_entry list" where
  "finishedPlayers r =
     filter weAllFinished
       (map (\<lambda>(idx, p). \<lparr>wePlayer = p, weIndex = idx, weAllFinished = allFinished p\<rparr>)
            (enumerate 0 (players r)))"

text \<open>
  \<^verbatim>\<open>Array.prototype.sort\<close> is stable; with the comparator \<^verbatim>\<open>posA - posB\<close> it is the stable
  sort by the key, which is what \<open>sort_key\<close> computes. The array sorted in place is the
  fresh one that \<^verbatim>\<open>map\<close> and \<^verbatim>\<open>filter\<close> built, so the function only reads the room.
\<close>

definition checkWinCondition :: "room \<Rightarrow> win_entry list option" where
  "checkWinCondition r =
     (let fp = finishedPlayers r in
      if length fp = 0 then None
      else
        (let needed = winnersNeeded (length (players r)) in
         if length fp \<ge> needed then Some (take needed (sort_key finishKey fp)) else None))"

section \<open>rollDice\<close>

text \<open>
  \<open>rnd\<close> stands for \<^verbatim>\<open>Math.floor(Math.random() * 6)\<close>; \<open>cheat\<close> is
  \<^verbatim>\<open>parseInt(payload.cheatValue)\<close> when \<^verbatim>\<open>payload.isAdminCheat\<close> and \<^verbatim>\<open>payload.cheatValue\<close> are
  both truthy and the result is a number, and \<open>None\<close> otherwise.
\<close>

definition chosenDice :: "nat \<Rightarrow> int option \<Rightarrow> int" where
  "chosenDice rnd cheat =
     (case cheat of
        Some v \<Rightarrow> (if v \<ge> 1 \<and> v \<le> 6 then v else int rnd + 1)
      | None \<Rightarrow> int rnd + 1)"

text \<open>
  The part of the handler that runs at once. It returns the room, the events, the
  index of the player object bound to \<^verbatim>\<open>currentPlayer\<close> and the dice value, which the
  timer callback closes over; \<open>None\<close> when a guard stops the handler.
\<close>

definition rollDiceStart ::
  "room \<Rightarrow> string \<Rightarrow> nat \<Rightarrow> int option \<Rightarrow> (room \<times> 'c event list \<times> nat \<times> int) option" where
  "rollDiceStart r socketId rnd cheat =
     (if isRolling r then None
      else
        (case at (players r) (int (turnIndex r)) of
           None \<Rightarrow> None
         | Some currentPlayer \<Rightarrow>
             if playerId currentPlayer \<noteq> socketId then None
             else
               (let diceValue = chosenDice rnd cheat;
                    r1 = r\<lparr>isRolling := True, dice := diceValue\<rparr>;
                    isThreeSixPenalty = (diceValue = 6 \<and> consecutiveSixes currentPlayer + 1 \<ge> 3);
                    evs = [DiceRolled diceValue socketId isThreeSixPenalty,
                           DiceRolledAll diceValue socketId isThreeSixPenalty];
                    r2 = r1\<lparr>awaitingMove := True, moveValidated := Some False\<rparr>
                in Some (r2, evs, turnIndex r, diceValue))))"

definition setSixes :: "room \<Rightarrow> nat \<Rightarrow> int \<Rightarrow> room" where
  "setSixes r ci n = r\<lparr>players := (players r)[ci := (players r ! ci)\<lparr>consecutiveSixes := n\<rparr>]\<rparr>"

text \<open>The callback of the 600 ms timer; \<open>ci\<close> is the index of \<^verbatim>\<open>currentPlayer\<close>.\<close>

definition rollDiceTimeout :: "room \<Rightarrow> nat \<Rightarrow> int \<Rightarrow> room \<times> 'c event list" where
  "rollDiceTimeout r ci diceValue =
     (let r1 = r\<lparr>isRolling := False\<rparr> in
      if diceValue = 6
      then
        (let r2 = setSixes r1 ci (consecutiveSixes (players r1 ! ci) + 1) in
         if consecutiveSixes (players r2 ! ci) \<ge> 3
         then
           (let r3 = setSixes r2 ci 0;
                r4 = r3\<lparr>awaitingMove := False\<rparr>;
                r5 = r4\<lparr>turnIndex := (turnIndex r4 + 1) mod turnLen r4\<rparr>
            in (updateRoomTurn r5,
                [RoomErrorMessage (name (players r5 ! ci) @ '' rolled 3 sixes! Turn skipped.''),
                 GameState]))
         else (updateRoomTurn r2, [GameState]))
      else (updateRoomTurn (setSixes r1 ci 0), [GameState]))"

text \<open>
  The whole roll when no other event of the room is handled during the delay: the
  immediate part followed by the timer callback. Events handled in between are composed
  from \<open>rollDiceStart\<close>, the other handlers and \<open>rollDiceTimeout\<close>.
\<close>

definition rollDice :: "room \<Rightarrow> string \<Rightarrow> nat \<Rightarrow> int option \<Rightarrow> 'c result" where
  "rollDice r socketId rnd cheat =
     (case rollDiceStart r socketId rnd cheat of
        None \<Rightarrow> Done r []
      | Some (r1, evs, ci, diceValue) \<Rightarrow>
          (let (r2, evs2) = rollDiceTimeout r1 ci diceValue in Done r2 (evs @ evs2)))"

section \<open>moveDone\<close>

text \<open>
  A string of digits is coerced to a number first; a pass is \<open>null\<close>, \<open>undefined\<close>,
  \<open>-1\<close> or anything that is not a number.
\<close>

definition isPassMove :: "token_ref \<Rightarrow> bool" where
  "isPassMove tokenId =
     (case tokenId of
        TokNum n \<Rightarrow> n = - 1
      | TokStr s \<Rightarrow> \<not> (s \<noteq> [] \<and> list_all isDigit s)
      | TokOther \<Rightarrow> True)"

text \<open>
  The loop that looks for the next player with an unfinished token. It runs inside a
  \<^verbatim>\<open>try\<close>: reading \<^verbatim>\<open>tokens\<close> of a missing player, or \<^verbatim>\<open>every\<close> of missing tokens,
  throws, which is the result \<open>None\<close>.
\<close>

function advanceLoop :: "player list \<Rightarrow> nat \<Rightarrow> nat \<Rightarrow> nat \<Rightarrow> nat option" where
  "advanceLoop ps len nextIndex iterations =
     (if iterations < len
      then (case at ps (int nextIndex) of
              None \<Rightarrow> None
            | Some nextPlayer \<Rightarrow>
                (case tokens nextPlayer of
                   None \<Rightarrow> None
                 | Some ts \<Rightarrow>
                     if everyFinished ts
                     then advanceLoop ps len ((nextIndex + 1) mod len) (iterations + 1)
                     else Some nextIndex))
      else Some nextIndex)"
  by pat_completeness auto
termination
  by (relation "measure (\<lambda>(ps, len, nextIndex, iterations). len - iterations)") auto

declare advanceLoop.simps [simp del]

definition advanceTurn :: "room \<Rightarrow> nat option" where
  "advanceTurn r = advanceLoop (players r) (turnLen r) ((turnIndex r + 1) mod turnLen r) 0"

text \<open>The body of the \<^verbatim>\<open>try\<close>; \<open>None\<close> when it throws (nothing is assigned before a throw).\<close>

definition turnLogic :: "room \<Rightarrow> player \<Rightarrow> bool \<Rightarrow> room option" where
  "turnLogic r currentPlayer noExtraTurnOn6 =
     (case tokens currentPlayer of
        None \<Rightarrow> None
      | Some cts \<Rightarrow>
          (let currentPlayerFinished = everyFinished cts in
           if noExtraTurnOn6
           then map_option
                  (\<lambda>nextIndex. r\<lparr>turnIndex := nextIndex, homeExtraTurn := False,
                                  killExtraTurn := False\<rparr>)
                  (advanceTurn r)
           else if killExtraTurn r then Some (r\<lparr>killExtraTurn := False\<rparr>)
           else if homeExtraTurn r
           then (if \<not> currentPlayerFinished then Some (r\<lparr>homeExtraTurn := False\<rparr>)
                 else map_option (\<lambda>nextIndex. r\<lparr>homeExtraTurn := False, turnIndex := nextIndex\<rparr>)
                        (advanceTurn r))
           else if dice r \<noteq> 6
           then map_option (\<lambda>nextIndex. r\<lparr>turnIndex := nextIndex\<rparr>) (advanceTurn r)
           else if currentPlayerFinished
           then map_option (\<lambda>nextIndex. r\<lparr>turnIndex := nextIndex\<rparr>) (advanceTurn r)
           else Some r))"

definition winnerPositions :: "win_entry list \<Rightarrow> winner_position list" where
  "winnerPositions ws =
     map (\<lambda>(pos, w). \<lparr>wpPosition = pos + 1, wpPlayerName = name (wePlayer w),
                       wpPlayerColor = color (wePlayer w)\<rparr>)
         (enumerate 0 ws)"

definition moveDone :: "room \<Rightarrow> string \<Rightarrow> token_ref \<Rightarrow> bool \<Rightarrow> 'c result" where
  "moveDone r pid tokenId noExtraTurnOn6 =
     (if \<not> awaitingMove r then Done r []
      else
        (case at (players r) (int (turnIndex r)) of
           None \<Rightarrow> Done r []
         | Some currentPlayer \<Rightarrow>
             if playerId currentPlayer \<noteq> pid then Done r []
             else if \<not> isPassMove tokenId \<and> moveValidated r = Some False
             then Done r [ErrorMessage
                    ''Move not valid or not validated by server. Choose a different token or retry.'']
             else
               (let r1 = r\<lparr>awaitingMove := False\<rparr>;
                    r2 = (case turnLogic r1 currentPlayer noExtraTurnOn6 of
                            Some r' \<Rightarrow> r'
                          | None \<Rightarrow> r1\<lparr>turnIndex := (turnIndex r1 + 1) mod length (players r1)\<rparr>);
                    r3 = updateRoomTurn r2
                in case checkWinCondition r3 of
                     Some ws \<Rightarrow>
                       (let wp = winnerPositions ws
                        in Done (r3\<lparr>gameEnded := True, winners := wp\<rparr>) [GameEnded wp])
                   | None \<Rightarrow> Done r3 [GameStateAfter (if isPassMove tokenId then 0 else 400)])))"

section \<open>Tournament results\<close>

text \<open>
  The tournament store \<^verbatim>\<open>tournamentsMemory\<close> maps a tournament id to a tournament object
  with its match records. A placement is \<^verbatim>\<open>{ position, player_id }\<close>; a \<open>player_id\<close> that
  is absent or empty is falsy.
\<close>

record placement =
  plPosition :: int
  plPlayerId :: "string option"

record tplayer =
  tpPlayerId :: string
  tpPlayerName :: string

record tmatch =
  mId :: string
  mTournamentId :: string
  mRoundNumber :: int
  mMatchIndex :: nat
  mRoomCode :: string
  mPlayers :: "tplayer list"
  mStatus :: string
  mResult :: "placement list option"

record tournament =
  tnId :: string
  tnName :: string
  tnStatus :: string
  tnPlayers :: "tplayer list"
  tnMatches :: "tmatch list option"

type_synonym tournaments = "string \<Rightarrow> tournament option"

text \<open>
  The acknowledgements sent to the reporting socket: \<^verbatim>\<open>'Waiting for other matches to
  finish...'\<close>, \<^verbatim>\<open>'No winners to advance'\<close>, \<^verbatim>\<open>'Tournament complete!'\<close> and \<^verbatim>\<open>'Advanced to
  round N'\<close>.
\<close>

datatype ack = AckWaiting | AckNoWinners | AckComplete | AckAdvanced int

datatype tevent =
    TErrorMessage string
  | ReportResultAck string ack
  | TournamentFinished string "string list"
  | RoundScheduled int "tmatch list"

text \<open>
  The first-place finisher of every match of the round:
  \<^verbatim>\<open>res.find(r => r.position === 1)\<close>, kept when it has a truthy \<open>player_id\<close>.
\<close>

fun collectWinners :: "tmatch list \<Rightarrow> string list" where
  "collectWinners [] = []"
| "collectWinners (m # ms) =
     (let res = (case mResult m of Some ps \<Rightarrow> ps | None \<Rightarrow> [])
      in case find (\<lambda>p. plPosition p = 1) res of
           None \<Rightarrow> collectWinners ms
         | Some winner \<Rightarrow>
             (case plPlayerId winner of
                None \<Rightarrow> collectWinners ms
              | Some w \<Rightarrow> (if w \<noteq> [] then w # collectWinners ms else collectWinners ms)))"

text \<open>\<^verbatim>\<open>for (let i = 0; i < winners.length; i += 4) winners.slice(i, i + 4)\<close>\<close>

fun chunksOf4 :: "'a list \<Rightarrow> 'a list list" where
  "chunksOf4 [] = []"
| "chunksOf4 (x # xs) = take 4 (x # xs) # chunksOf4 (drop 4 (x # xs))"

text \<open>
  The match record of the next round for the group with index \<open>k\<close> (from 0). \<open>ids k\<close>
  stands for the two random strings that \<^verbatim>\<open>makeId('m_')\<close> and \<^verbatim>\<open>makeId('mm_')\<close> return for
  this group. The players are looked up in the store; a winner not found there is left
  out of the record.
\<close>

definition nextMatch ::
  "tournament \<Rightarrow> string \<Rightarrow> int \<Rightarrow> (nat \<Rightarrow> string \<times> string) \<Rightarrow> nat \<Rightarrow> string list \<Rightarrow> tmatch" where
  "nextMatch t tid nextRound ids k grp =
     \<lparr>mId = snd (ids k), mTournamentId = tid, mRoundNumber = nextRound, mMatchIndex = k + 1,
      mRoomCode = ''match_'' @ fst (ids k),
      mPlayers = concat (map (\<lambda>w. case find (\<lambda>pp. tpPlayerId pp = w) (tnPlayers t) of
                                      Some p \<Rightarrow> [p] | None \<Rightarrow> []) grp),
      mStatus = ''scheduled'', mResult = None\<rparr>"

text \<open>
  \<open>reportMatchResult\<close> on a server without a configured database client: every
  \<^verbatim>\<open>supabase.from\<close> call throws and the handler takes its in-memory branches. The model
  covers the tournament store and the events; the binding of connected sockets to the
  rooms of a new round, which follows the \<open>roundScheduled\<close> event, touches only the room
  registry and is left out.
\<close>

definition reportMatchResult ::
  "tournaments \<Rightarrow> (nat \<Rightarrow> string \<times> string) \<Rightarrow> string \<Rightarrow> string \<Rightarrow> placement list option
     \<Rightarrow> tournaments \<times> tevent list" where
  "reportMatchResult mem ids tid mid placements =
     (if tid = [] \<or> mid = [] \<or> placements = None
      then (mem, [TErrorMessage ''reportMatchResult: missing data''])
      else
        (case mem tid of
           None \<Rightarrow> (mem, [TErrorMessage ''Match not found''])
         | Some t \<Rightarrow>
             (case tnMatches t of
                None \<Rightarrow> (mem, [TErrorMessage ''Match not found''])
              | Some ms \<Rightarrow>
                  (case findIndex (\<lambda>m. mId m = mid) ms of
                     None \<Rightarrow> (mem, [TErrorMessage ''Match not found''])
                   | Some k \<Rightarrow>
                       (let matchRow = (ms ! k)\<lparr>mResult := placements, mStatus := ''finished''\<rparr>;
                            ms1 = ms[k := matchRow];
                            t1 = t\<lparr>tnMatches := Some ms1\<rparr>;
                            mem1 = mem(tid \<mapsto> t1);
                            currentRound = mRoundNumber matchRow;
                            finishedMatches = filter (\<lambda>m. mRoundNumber m = currentRound) ms1;
                            allFinished = list_all (\<lambda>m. mStatus m = ''finished'') finishedMatches
                        in if \<not> allFinished then (mem1, [ReportResultAck mid AckWaiting])
                           else
                             (let winners = collectWinners finishedMatches
                              in if length winners = 0
                                 then (mem1, [ReportResultAck mid AckNoWinners])
                                 else if length winners \<le> 4
                                 then (mem1, [TournamentFinished tid winners,
                                              ReportResultAck mid AckComplete])
                                 else
                                   (let nextRound = currentRound + 1;
                                        nextMatches =
                                          map (\<lambda>(k, grp). nextMatch t1 tid nextRound ids k grp)
                                              (enumerate 0 (chunksOf4 winners))
                                    in (mem1(tid \<mapsto> t1\<lparr>tnMatches := Some (ms1 @ nextMatches)\<rparr>),
                                        [RoundScheduled nextRound nextMatches,
                                         ReportResultAck mid (AckAdvanced nextRound)]))))))))"

section \<open>Example rooms\<close>

definition mkToken :: "string \<Rightarrow> int \<Rightarrow> bool \<Rightarrow> token" where
  "mkToken i p f = \<lparr>tokId = i, position = p, isFinished = f\<rparr>"

definition mkPlayer :: "string \<Rightarrow> string \<Rightarrow> string \<Rightarrow> token list \<Rightarrow> int \<Rightarrow> player" where
  "mkPlayer i n c ts k =
     \<lparr>playerId = i, name = n, color = Some c, tokens = Some ts, consecutiveSixes = k,
      finished = False, finishPosition = None\<rparr>"

definition mkRoom :: "player list \<Rightarrow> int \<Rightarrow> nat \<Rightarrow> room" where
  "mkRoom ps d t =
     \<lparr>players = ps, dice = d, turnIndex = t, turnOrder = Some (map playerId ps), turn = Some t,
      isRolling = False, awaitingMove = False, moveValidated = None, killExtraTurn = False,
      homeExtraTurn = False, finishOrder = [], gameEnded = False, winners = []\<rparr>"

text \<open>
  A small board: eight shared cells \<open>0..7\<close>, entered by each colour at another cell, and
  three cells of its own for each colour; the even shared cells are safe.
\<close>

definition exGeometry :: "nat geometry" where
  "exGeometry =
     \<lparr>getPath = (\<lambda>c. if c = Some ''blue'' then [0, 1, 2, 3, 4, 5, 6, 7, 100, 101, 102]
                     else if c = Some ''red'' then [2, 3, 4, 5, 6, 7, 0, 1, 200, 201, 202]
                     else if c = Some ''green'' then [4, 5, 6, 7, 0, 1, 2, 3, 300, 301, 302]
                     else if c = Some ''yellow'' then [6, 7, 0, 1, 2, 3, 4, 5, 400, 401, 402]
                     else []),
      safeCells = [0, 2, 4, 6]\<rparr>"

definition baseTokens :: "token list" where
  "baseTokens = [mkToken ''T1'' (- 1) False, mkToken ''T2'' (- 1) False,
                 mkToken ''T3'' (- 1) False, mkToken ''T4'' (- 1) False]"

definition homeTokens :: "token list" where
  "homeTokens = [mkToken ''T1'' 10 True, mkToken ''T2'' 10 True,
                 mkToken ''T3'' 10 True, mkToken ''T4'' 10 True]"

definition exRoomSixes :: room where
  "exRoomSixes =
     mkRoom [mkPlayer ''a'' ''Ann'' ''blue'' baseTokens 2,
             mkPlayer ''b'' ''Bob'' ''red'' homeTokens 0,
             mkPlayer ''c'' ''Cy'' ''green'' baseTokens 0] 3 0"

text \<open>A room in the middle of a turn: the dice is rolled and a move is awaited.\<close>

definition mkTokens :: "int \<Rightarrow> int \<Rightarrow> int \<Rightarrow> int \<Rightarrow> token list" where
  "mkTokens a b c d = [mkToken ''T1'' a False, mkToken ''T2'' b False,
                       mkToken ''T3'' c False, mkToken ''T4'' d False]"

definition awaiting :: "room \<Rightarrow> room" where
  "awaiting r = r\<lparr>awaitingMove := True, moveValidated := Some False\<rparr>"

definition exRoomTwo :: "int \<Rightarrow> int \<Rightarrow> int \<Rightarrow> int \<Rightarrow> room" where
  "exRoomTwo d a b1 b2 =
     awaiting (mkRoom [mkPlayer ''a'' ''Ann'' ''blue'' (mkTokens a (- 1) (- 1) (- 1)) 0,
                       mkPlayer ''b'' ''Bob'' ''red'' (mkTokens b1 b2 (- 1) (- 1)) 0] d 0)"

definition exRoomFin :: room where
  "exRoomFin =
     awaiting (mkRoom [mkPlayer ''a'' ''Ann'' ''blue''
                         [mkToken ''T1'' 10 True, mkToken ''T2'' 2 False,
                          mkToken ''T3'' (- 1) False, mkToken ''T4'' (- 1) False] 0,
                       mkPlayer ''b'' ''Bob'' ''red'' (mkTokens 1 (- 1) (- 1) (- 1)) 0] 1 0)"

text \<open>A room of three in which two players have finished, the third seat first.\<close>

definition finPlayer :: "string \<Rightarrow> string \<Rightarrow> string \<Rightarrow> nat \<Rightarrow> player" where
  "finPlayer i n c k = (mkPlayer i n c homeTokens 0)\<lparr>finished := True, finishPosition := Some k\<rparr>"

definition exRoomWon :: room where
  "exRoomWon =
     mkRoom [finPlayer ''a'' ''Ann'' ''blue'' 2,
             mkPlayer ''b'' ''Bob'' ''red'' baseTokens 0,
             finPlayer ''c'' ''Cy'' ''green'' 1] 3 1"

text \<open>
  A board with eight shared cells and six cells of its own for each colour, and a room
  in which blue has three tokens home and the fourth on index 1, red has a single token
  on the shared cell 7, and blue has rolled a six. Blue moves the fourth token twice
  before ending the turn.
\<close>

definition exGeometryLong :: "nat geometry" where
  "exGeometryLong =
     \<lparr>getPath = (\<lambda>c. if c = Some ''blue'' then [0, 1, 2, 3, 4, 5, 6, 7, 100, 101, 102, 103, 104, 105]
                     else if c = Some ''red'' then [2, 3, 4, 5, 6, 7, 0, 1, 200, 201, 202, 203, 204, 205]
                     else if c = Some ''green'' then [4, 5, 6, 7, 0, 1, 2, 3, 300, 301, 302, 303, 304, 305]
                     else if c = Some ''yellow'' then [6, 7, 0, 1, 2, 3, 4, 5, 400, 401, 402, 403, 404, 405]
                     else []),
      safeCells = [0, 2, 4, 6]\<rparr>"

definition exRoomDouble :: room where
  "exRoomDouble =
     awaiting (mkRoom [mkPlayer ''a'' ''Ann'' ''blue''
                         [mkToken ''T1'' 1 False, mkToken ''T2'' 13 True,
                          mkToken ''T3'' 13 True, mkToken ''T4'' 13 True] 1,
                       mkPlayer ''b'' ''Bob'' ''red'' (mkTokens 5 (- 1) (- 1) (- 1)) 0,
                       mkPlayer ''c'' ''Cy'' ''green'' baseTokens 0] 6 0)"

definition exRoomDouble1 :: room where
  "exRoomDouble1 = resRoom (updateTokenPosition exGeometryLong exRoomDouble ''a'' (TokNum 0) None)"

definition exRoomDouble2 :: room where
  "exRoomDouble2 = resRoom (updateTokenPosition exGeometryLong exRoomDouble1 ''a'' (TokNum 0) None)"

definition exRoomDouble3 :: room where
  "exRoomDouble3 = resRoom (moveDone exRoomDouble2 ''a'' (TokNum 0) False :: nat result)"

text \<open>A tournament in progress whose first round is a single match of two players.\<close>

definition exMatch :: tmatch where
  "exMatch =
     \<lparr>mId = ''m1'', mTournamentId = ''t1'', mRoundNumber = 1, mMatchIndex = 1,
      mRoomCode = ''match_m_abc'',
      mPlayers = [\<lparr>tpPlayerId = ''p1'', tpPlayerName = ''Ann''\<rparr>,
                  \<lparr>tpPlayerId = ''p2'', tpPlayerName = ''Bob''\<rparr>],
      mStatus = ''playing'', mResult = None\<rparr>"

definition exTournaments :: tournaments where
  "exTournaments =
     [''t1'' \<mapsto> \<lparr>tnId = ''t1'', tnName = ''Cup'', tnStatus = ''in_progress'',
                   tnPlayers = [\<lparr>tpPlayerId = ''p1'', tpPlayerName = ''Ann''\<rparr>,
                                \<lparr>tpPlayerId = ''p2'', tpPlayerName = ''Bob''\<rparr>],
                   tnMatches = Some [exMatch]\<rparr>]"

definition exIds :: "nat \<Rightarrow> string \<times> string" where
  "exIds k = (''m_next'', ''mm_next'')"

text \<open>A first round of five matches, four of them finished with a winner each.\<close>

definition exDone :: "string \<Rightarrow> string \<Rightarrow> tmatch" where
  "exDone i w =
     \<lparr>mId = i, mTournamentId = ''t5'', mRoundNumber = 1, mMatchIndex = 1, mRoomCode = ''match_'' @ i,
      mPlayers = [\<lparr>tpPlayerId = w, tpPlayerName = w\<rparr>],
      mStatus = ''finished'', mResult = Some [\<lparr>plPosition = 1, plPlayerId = Some w\<rparr>]\<rparr>"

definition exTournaments5 :: tournaments where
  "exTournaments5 =
     [''t5'' \<mapsto> \<lparr>tnId = ''t5'', tnName = ''Open'', tnStatus = ''in_progress'',
                   tnPlayers = map (\<lambda>w. \<lparr>tpPlayerId = w, tpPlayerName = w\<rparr>)
                                 [''w1'', ''w2'', ''w3'', ''w4'', ''w5''],
                   tnMatches = Some [exDone ''m1'' ''w1'', exDone ''m2'' ''w2'', exDone ''m3'' ''w3'',
                                     exDone ''m4'' ''w4'',
                                     (exDone ''m5'' ''w5'')\<lparr>mStatus := ''playing'', mResult := None\<rparr>]\<rparr>]"

text \<open>
  A room in which the third player joined after the start and has no tokens yet, while
  the second has finished; the dice shows 3.
\<close>

definition exRoomLate :: room where
  "exRoomLate =
     awaiting (mkRoom [mkPlayer ''a'' ''Ann'' ''blue'' baseTokens 0,
                       mkPlayer ''b'' ''Bob'' ''red'' homeTokens 0,
                       (mkPlayer ''c'' ''Cy'' ''green'' [] 0)\<lparr>tokens := None\<rparr>] 3 0)"

definition exRoomLate1 :: room where
  "exRoomLate1 = resRoom (moveDone exRoomLate ''a'' TokOther False :: nat result)"

text \<open>
  The third six of the first player in \<open>exRoomSixes\<close>, with a move request that reaches the
  server after the roll and before the callback of the roll's timer.
\<close>

definition exRoomRolled :: room where
  "exRoomRolled =
     (case (rollDiceStart exRoomSixes ''a'' 3 (Some 6) :: (room \<times> nat event list \<times> nat \<times> int) option) of
        Some (r1, evs, ci, diceValue) \<Rightarrow> r1
      | None \<Rightarrow> exRoomSixes)"

definition exRoomRolledMoved :: room where
  "exRoomRolledMoved = resRoom (updateTokenPosition exGeometry exRoomRolled ''a'' (TokNum 0) None)"

definition exRoomRolledDone :: room where
  "exRoomRolledDone = fst (rollDiceTimeout exRoomRolledMoved 0 6 :: room \<times> nat event list)"

text \<open>
  A room of three whose turn order holds the first two players only (the order was built
  before the third joined); it is the turn of the second, who has rolled two sixes.
\<close>

definition exRoomShortOrder :: room where
  "exRoomShortOrder =
     (mkRoom [mkPlayer ''a'' ''Ann'' ''blue'' baseTokens 0,
              mkPlayer ''b'' ''Bob'' ''red'' baseTokens 2,
              mkPlayer ''c'' ''Cy'' ''green'' baseTokens 0] 3 1)\<lparr>turnOrder := Some [''a'', ''b'']\<rparr>"

section \<open>Predicates for the capture loop\<close>

text \<open>
  What the capture loop may do to a room: a token is either left as it was or sent to the
  base, and the latter only for a token of another colour that fulfilled every condition
  of the loop in the room the loop started from.
\<close>

definition killedToken :: "token \<Rightarrow> token" where
  "killedToken t = t\<lparr>position := - 1, isFinished := False\<rparr>"

definition killable :: "'c geometry \<Rightarrow> 'c option \<Rightarrow> player \<Rightarrow> nat \<Rightarrow> bool" where
  "killable g landedCell enemy idx =
     (case tokens enemy of
        None \<Rightarrow> False
      | Some ets \<Rightarrow>
          position (ets ! idx) \<noteq> - 1
          \<and> \<not> (position (ets ! idx) \<ge> int (length (getPath g (color enemy))) - 6
                 \<or> isFinished (ets ! idx))
          \<and> at (getPath g (color enemy)) (position (ets ! idx)) = landedCell
          \<and> stackedTokenCount ets (position (ets ! idx)) < 2)"

definition tokensRel :: "'c geometry \<Rightarrow> string option \<Rightarrow> 'c option \<Rightarrow> player \<Rightarrow> token list \<Rightarrow> bool" where
  "tokensRel g mc lc p0 ts =
     (case tokens p0 of
        None \<Rightarrow> False
      | Some ts0 \<Rightarrow>
          length ts = length ts0
          \<and> (\<forall>j < length ts0. ts ! j = ts0 ! j
                \<or> (ts ! j = killedToken (ts0 ! j) \<and> color p0 \<noteq> mc \<and> killable g lc p0 j)))"

definition playerRel :: "'c geometry \<Rightarrow> string option \<Rightarrow> 'c option \<Rightarrow> player \<Rightarrow> player \<Rightarrow> bool" where
  "playerRel g mc lc p0 p =
     (p\<lparr>tokens := tokens p0\<rparr> = p0
      \<and> (case tokens p of None \<Rightarrow> tokens p0 = None | Some ts \<Rightarrow> tokensRel g mc lc p0 ts))"

definition killRel :: "'c geometry \<Rightarrow> string option \<Rightarrow> 'c option \<Rightarrow> room \<Rightarrow> room \<Rightarrow> bool" where
  "killRel g mc lc r0 r =
     (length (players r) = length (players r0)
      \<and> (\<forall>i < length (players r0). playerRel g mc lc (players r0 ! i) (players r ! i))
      \<and> r\<lparr>players := players r0, killExtraTurn := killExtraTurn r0\<rparr> = r0)"

text \<open>The token of the mover after a committed move to index \<open>fi\<close>.\<close>

definition movedToken :: "'c geometry \<Rightarrow> room \<Rightarrow> nat \<Rightarrow> token \<Rightarrow> int \<Rightarrow> token" where
  "movedToken g r pi tok fi =
     (if fi = int (length (getPath g (color (players r ! pi)))) - 1
      then tok\<lparr>position := fi, isFinished := True\<rparr>
      else tok\<lparr>position := fi\<rparr>)"

text \<open>
  A player with all tokens finished, as \<open>moveDone\<close> tests it:
  \<^verbatim>\<open>p.tokens.every((t) => t.isFinished === true)\<close> on a player that has tokens.
\<close>

definition playerDone :: "player \<Rightarrow> bool" where
  "playerDone p = (case tokens p of Some ts \<Rightarrow> everyFinished ts | None \<Rightarrow> False)"

section \<open>Basic facts\<close>

lemma updateRoomTurn_frame:
  "players (updateRoomTurn r) = players r"
  "turnIndex (updateRoomTurn r) = turnIndex r"
  "awaitingMove (updateRoomTurn r) = awaitingMove r"
  "turnOrder (updateRoomTurn r) = turnOrder r"
  "killExtraTurn (updateRoomTurn r) = killExtraTurn r"
  "homeExtraTurn (updateRoomTurn r) = homeExtraTurn r"
  "dice (updateRoomTurn r) = dice r"
  "moveValidated (updateRoomTurn r) = moveValidated r"
  by (simp_all add: updateRoomTurn_def Let_def split: option.splits)

lemma at_Some_iff: "at xs (int i) = Some x \<longleftrightarrow> i < length xs \<and> xs ! i = x"
  by (auto simp: at_def)

lemma rollDiceTimeout_penalty:
  assumes "ci < length (players r)" and "consecutiveSixes (players r ! ci) + 1 \<ge> 3"
  shows "\<exists>r'. rollDiceTimeout r ci 6 =
           (r', [RoomErrorMessage (name (players r ! ci) @ '' rolled 3 sixes! Turn skipped.''),
                 GameState])
         \<and> \<not> awaitingMove r' \<and> \<not> isRolling r' \<and> dice r' = dice r
         \<and> turnIndex r' = (turnIndex r + 1) mod turnLen r
         \<and> players r' = (players r)[ci := (players r ! ci)\<lparr>consecutiveSixes := 0\<rparr>]"
  using assms
  by (auto simp: rollDiceTimeout_def setSixes_def Let_def turnLen_def updateRoomTurn_frame
      updateRoomTurn_def split: option.splits)

lemma rollDice_penalty:
  assumes "\<not> isRolling r" and "at (players r) (int (turnIndex r)) = Some cp"
    and "playerId cp = sid" and "chosenDice rnd cheat = 6" and "consecutiveSixes cp + 1 \<ge> 3"
  shows "\<exists>r'. rollDice r sid rnd cheat =
           Done r' [DiceRolled 6 sid True, DiceRolledAll 6 sid True,
                    RoomErrorMessage (name cp @ '' rolled 3 sixes! Turn skipped.''), GameState]
         \<and> \<not> awaitingMove r' \<and> \<not> isRolling r' \<and> dice r' = 6
         \<and> turnIndex r' = (turnIndex r + 1) mod turnLen r
         \<and> players r' = (players r)[turnIndex r := cp\<lparr>consecutiveSixes := 0\<rparr>]"
  using assms
  by (auto simp: rollDice_def rollDiceStart_def rollDiceTimeout_def setSixes_def Let_def
      at_Some_iff turnLen_def updateRoomTurn_frame updateRoomTurn_def split: option.splits)

lemma turnLen_order: "turnOrder r = Some order \<Longrightarrow> order \<noteq> [] \<Longrightarrow> turnLen r = length order"
  by (simp add: turnLen_def)

lemma turnLen_players:
  "turnOrder r = None \<or> turnOrder r = Some [] \<Longrightarrow> turnLen r = length (players r)"
  by (auto simp: turnLen_def)

lemma updateTokenPosition_not_awaiting:
  "\<not> awaitingMove r \<Longrightarrow> resRoom (updateTokenPosition g r pid tokenId clientPos) = r"
  by (simp add: updateTokenPosition_def Let_def split: option.splits)


lemma succ_mod_neq: "2 \<le> n \<Longrightarrow> (t + 1) mod n \<noteq> (t::nat)"
proof
  assume n: "2 \<le> n" and e: "(t + 1) mod n = t"
  then have "t < n" by (metis mod_less_divisor less_le_trans zero_less_numeral)
  show False
  proof (cases "t + 1 < n")
    case True then show ?thesis using e by simp
  next
    case False
    with \<open>t < n\<close> have "t + 1 = n" by simp
    then have "(t + 1) mod n = 0" by simp
    with e \<open>t + 1 = n\<close> n show False by simp
  qed
qed

section \<open>Facts about the capture loop\<close>

lemma playerRel_refl: "playerRel g mc lc p p"
  by (auto simp: playerRel_def tokensRel_def split: option.splits)

lemma killRel_refl: "killRel g mc lc r r"
  by (simp add: killRel_def playerRel_refl)

lemma count_mono:
  "length ts = length ts0 \<Longrightarrow> (\<forall>j < length ts0. position (ts0 ! j) = p \<longrightarrow> ts ! j = ts0 ! j)
     \<Longrightarrow> stackedTokenCount ts0 p \<le> stackedTokenCount ts p"
proof (induction ts ts0 rule: list_induct2)
  case Nil
  then show ?case by simp
next
  case (Cons x xs y ys)
  have hd: "position y = p \<longrightarrow> x = y" using Cons.prems by auto
  have tl: "\<forall>j < length ys. position (ys ! j) = p \<longrightarrow> xs ! j = ys ! j"
    using Cons.prems by auto
  from Cons.IH [OF tl] hd show ?case by (auto simp: stackedTokenCount_def)
qed

lemma tokensRel_count:
  assumes rel: "tokensRel g mc lc p0 ts" and t0: "tokens p0 = Some ts0"
    and c: "stackedTokenCount ts p < 2"
  shows "stackedTokenCount ts0 p < 2"
proof (rule ccontr)
  assume n: "\<not> stackedTokenCount ts0 p < 2"
  have len: "length ts = length ts0" using rel t0 by (simp add: tokensRel_def)
  have "\<forall>j < length ts0. position (ts0 ! j) = p \<longrightarrow> ts ! j = ts0 ! j"
  proof (intro allI impI)
    fix j assume j: "j < length ts0" and pj: "position (ts0 ! j) = p"
    from rel t0 j have "ts ! j = ts0 ! j \<or> killable g lc p0 j" by (auto simp: tokensRel_def)
    moreover have "\<not> killable g lc p0 j" using n pj t0 by (simp add: killable_def)
    ultimately show "ts ! j = ts0 ! j" by simp
  qed
  from count_mono [OF len this] n c show False by simp
qed


lemma playerRel_color: "playerRel g mc lc p0 p \<Longrightarrow> color p = color p0"
  by (auto simp: playerRel_def dest: arg_cong [where f = color])

lemma killRel_playerRel:
  "killRel g mc lc r0 r \<Longrightarrow> i < length (players r0) \<Longrightarrow> playerRel g mc lc (players r0 ! i) (players r ! i)"
  by (simp add: killRel_def)

lemma playerRel_kill:
  assumes rel: "playerRel g mc lc p0 p" and c: "color p0 \<noteq> mc"
    and ets: "tokens p = Some ets" and idx: "idx < length ets"
    and 1: "position (ets ! idx) \<noteq> - 1"
    and 2: "\<not> (position (ets ! idx) \<ge> int (length (getPath g (color p))) - 6 \<or> isFinished (ets ! idx))"
    and 3: "at (getPath g (color p)) (position (ets ! idx)) = lc"
    and 4: "\<not> stackedTokenCount ets (position (ets ! idx)) \<ge> 2"
  shows "playerRel g mc lc p0
           (p\<lparr>tokens := Some (ets[idx := (ets ! idx)\<lparr>position := - 1, isFinished := False\<rparr>])\<rparr>)"
proof -
  from rel ets have tr: "tokensRel g mc lc p0 ets" and eq: "p\<lparr>tokens := tokens p0\<rparr> = p0"
    by (simp_all add: playerRel_def)
  from tr obtain ts0 where t0: "tokens p0 = Some ts0" and len: "length ets = length ts0"
    and all: "\<forall>j < length ts0. ets ! j = ts0 ! j
                \<or> (ets ! j = killedToken (ts0 ! j) \<and> color p0 \<noteq> mc \<and> killable g lc p0 j)"
    by (auto simp: tokensRel_def split: option.splits)
  have col: "color p = color p0" using rel by (rule playerRel_color)
  have same: "ets ! idx = ts0 ! idx"
    using all idx len 1 by (auto simp: killedToken_def)
  have cnt: "stackedTokenCount ts0 (position (ets ! idx)) < 2"
    using tokensRel_count [OF tr t0] 4 by simp
  have k: "killable g lc p0 idx"
    using 1 2 3 cnt same col t0 by (simp add: killable_def)
  have "tokensRel g mc lc p0 (ets[idx := (ets ! idx)\<lparr>position := - 1, isFinished := False\<rparr>])"
    unfolding tokensRel_def using t0 len all k c same idx
    by (auto simp: nth_list_update killedToken_def)
  moreover have "p\<lparr>tokens := Some (ets[idx := (ets ! idx)\<lparr>position := - 1, isFinished := False\<rparr>])\<rparr>
                   \<lparr>tokens := tokens p0\<rparr> = p0"
    using eq by simp
  ultimately show ?thesis by (simp add: playerRel_def)
qed

lemma killStep_rel:
  assumes rel: "killRel g mc lc r0 r" and e: "e < length (players r0)"
    and c: "color (players r0 ! e) \<noteq> mc"
    and idx: "\<forall>ts0. tokens (players r0 ! e) = Some ts0 \<longrightarrow> idx < length ts0"
  shows "killRel g mc lc r0 (fst (killStep g mc lc e idx (r, evs)))"
proof -
  let ?p = "players r ! e" and ?q = "players r0 ! e"
  have pr: "playerRel g mc lc ?q ?p" using rel e by (rule killRel_playerRel)
  have len: "length (players r) = length (players r0)" using rel by (simp add: killRel_def)
  show ?thesis
  proof (cases "tokens ?p")
    case None
    then show ?thesis using rel by (simp add: killStep_def)
  next
    case (Some ets)
    with pr have tr: "tokensRel g mc lc ?q ets" by (simp add: playerRel_def)
    then have i: "idx < length ets" using idx by (auto simp: tokensRel_def split: option.splits)
    show ?thesis
    proof (cases "position (ets ! idx) \<noteq> - 1
          \<and> \<not> (position (ets ! idx) \<ge> int (length (getPath g (color ?p))) - 6 \<or> isFinished (ets ! idx))
          \<and> at (getPath g (color ?p)) (position (ets ! idx)) = lc
          \<and> \<not> stackedTokenCount ets (position (ets ! idx)) \<ge> 2")
      case False
      then show ?thesis using rel Some by (auto simp: killStep_def Let_def)
    next
      case True
      then have st: "fst (killStep g mc lc e idx (r, evs))
                 = (setToken r e idx ((ets ! idx)\<lparr>position := - 1, isFinished := False\<rparr>))
                               \<lparr>killExtraTurn := True\<rparr>"
        using Some by (auto simp: killStep_def Let_def)
      have pk: "playerRel g mc lc ?q
           (?p\<lparr>tokens := Some (ets[idx := (ets ! idx)\<lparr>position := - 1, isFinished := False\<rparr>])\<rparr>)"
        using playerRel_kill [OF pr c Some i] True by blast
      show ?thesis
        unfolding st killRel_def
      proof (intro conjI allI impI)
        show "length (players ((setToken r e idx ((ets ! idx)\<lparr>position := - 1, isFinished := False\<rparr>))
                               \<lparr>killExtraTurn := True\<rparr>)) = length (players r0)"
          using len by (simp add: setToken_def)
      next
        fix i assume "i < length (players r0)"
        then show "playerRel g mc lc (players r0 ! i)
            (players ((setToken r e idx ((ets ! idx)\<lparr>position := - 1, isFinished := False\<rparr>))
                               \<lparr>killExtraTurn := True\<rparr>) ! i)"
          using pk rel e len Some
          by (cases "i = e") (simp_all add: setToken_def killRel_def)
      next
        show "(setToken r e idx ((ets ! idx)\<lparr>position := - 1, isFinished := False\<rparr>))
                               \<lparr>killExtraTurn := True\<rparr>
               \<lparr>players := players r0, killExtraTurn := killExtraTurn r0\<rparr> = r0"
          using rel by (simp add: setToken_def killRel_def)
      qed
    qed
  qed
qed

lemma fold_killStep_rel:
  assumes e: "e < length (players r0)" and c: "color (players r0 ! e) \<noteq> mc"
    and idxs: "\<forall>idx \<in> set idxs. \<forall>ts0. tokens (players r0 ! e) = Some ts0 \<longrightarrow> idx < length ts0"
  shows "killRel g mc lc r0 (fst st) \<Longrightarrow> killRel g mc lc r0 (fst (fold (killStep g mc lc e) idxs st))"
  using idxs
proof (induction idxs arbitrary: st)
  case Nil
  then show ?case by simp
next
  case (Cons a idxs)
  obtain r evs where st: "st = (r, evs)" by (cases st)
  have "killRel g mc lc r0 (fst (killStep g mc lc e a (r, evs)))"
    using killStep_rel [of g mc lc r0 r e a evs] e c Cons.prems st by simp
  then show ?case using Cons.IH Cons.prems(2) st by simp
qed

lemma killEnemies_rel:
  assumes es: "\<forall>e \<in> set es. e < length (players r0)"
  shows "killRel g mc lc r0 (fst st) \<Longrightarrow> killRel g mc lc r0 (fst (snd (killEnemies g mc lc es st)))"
  using es
proof (induction es arbitrary: st)
  case Nil
  then show ?case by simp
next
  case (Cons e es)
  let ?p = "players (fst st) ! e" and ?q = "players r0 ! e"
  have e: "e < length (players r0)" using Cons.prems(2) by simp
  have pr: "playerRel g mc lc ?q ?p" using Cons.prems(1) e by (rule killRel_playerRel)
  have col: "color ?p = color ?q" using pr by (rule playerRel_color)
  show ?case
  proof (cases "color ?p = mc")
    case True
    then show ?thesis using Cons by (simp add: Let_def)
  next
    case False
    show ?thesis
    proof (cases "tokens ?p")
      case None
      then show ?thesis using False Cons.prems(1) by (simp add: Let_def)
    next
      case (Some ts)
      with pr have "tokensRel g mc lc ?q ts" by (simp add: playerRel_def)
      then have "\<forall>idx \<in> set [0..<length ts]. \<forall>ts0. tokens ?q = Some ts0 \<longrightarrow> idx < length ts0"
        by (auto simp: tokensRel_def split: option.splits)
      from fold_killStep_rel [OF e _ this Cons.prems(1)] False col
      have "killRel g mc lc r0 (fst (fold (killStep g mc lc e) [0..<length ts] st))" by simp
      then show ?thesis using Cons.IH Cons.prems(2) False Some by (simp add: Let_def)
    qed
  qed
qed

lemma killCheck_rel:
  "\<exists>lc. killRel g (color (players (fst st) ! pi)) lc (fst st) (fst (snd (killCheck g pi tokenId st)))"
proof (cases "killCheck g pi tokenId st = (False, st)")
  case True
  have "killRel g (color (players (fst st) ! pi)) None (fst st) (fst st)" by (rule killRel_refl)
  with True show ?thesis by auto
next
  case False
  then obtain lc where
    "killCheck g pi tokenId st =
       killEnemies g (color (players (fst st) ! pi)) lc [0..<length (players (fst st))] st"
    by (auto simp: killCheck_def Let_def split: option.splits if_splits)
  moreover have "killRel g (color (players (fst st) ! pi)) lc (fst st)
         (fst (snd (killEnemies g (color (players (fst st) ! pi)) lc
                      [0..<length (players (fst st))] st)))"
    by (rule killEnemies_rel) (simp_all add: killRel_refl)
  ultimately show ?thesis by auto
qed

lemma killCheck_protected:
  assumes "\<forall>mt. readToken (players (fst st) ! pi) tokenId = Some mt \<longrightarrow>
             (case at (getPath g (color (players (fst st) ! pi))) (position mt) of
                Some c \<Rightarrow> c \<in> set (safeCells g) | None \<Rightarrow> False)
             \<or> position mt \<ge> int (length (getPath g (color (players (fst st) ! pi)))) - 6"
  shows "killCheck g pi tokenId st = (False, st)"
  using assms by (auto simp: killCheck_def Let_def split: option.splits)

lemma tokensRel_same_color:
  assumes "tokensRel g mc lc p0 ts" and "color p0 = mc"
  shows "tokens p0 = Some ts"
proof -
  from assms obtain ts0 where t0: "tokens p0 = Some ts0" and len: "length ts = length ts0"
    and all: "\<forall>j < length ts0. ts ! j = ts0 ! j"
    by (auto simp: tokensRel_def split: option.splits)
  then have "ts = ts0" by (simp add: list_eq_iff_nth_eq)
  with t0 show ?thesis by simp
qed

lemma playerRel_same_color:
  assumes "playerRel g mc lc p0 p" and "color p0 = mc"
  shows "p = p0"
proof -
  have eq: "p\<lparr>tokens := tokens p0\<rparr> = p0" using assms(1) by (simp add: playerRel_def)
  have "tokens p = tokens p0"
  proof (cases "tokens p")
    case None
    then show ?thesis using assms(1) by (simp add: playerRel_def)
  next
    case (Some ts)
    then have "tokensRel g mc lc p0 ts" using assms(1) by (simp add: playerRel_def)
    from tokensRel_same_color [OF this assms(2)] Some show ?thesis by simp
  qed
  with eq show ?thesis by (metis player.update_convs(4) player.surjective)
qed

lemma tokenAt_eq:
  "tokenAt r i j = Some t \<longleftrightarrow>
     i < length (players r) \<and> (\<exists>ts. tokens (players r ! i) = Some ts \<and> j < length ts \<and> ts ! j = t)"
  by (auto simp: tokenAt_def at_def split: option.splits)

lemma playerRel_token:
  assumes rel: "playerRel g mc lc p0 p" and t0: "tokens p0 = Some ts0" and j: "j < length ts0"
  shows "\<exists>ts. tokens p = Some ts \<and> length ts = length ts0
           \<and> (ts ! j = ts0 ! j
                \<or> (ts ! j = killedToken (ts0 ! j) \<and> color p0 \<noteq> mc \<and> killable g lc p0 j))"
  using assms by (auto simp: playerRel_def tokensRel_def split: option.splits)


lemma findIndex_Some: "findIndex P xs = Some i \<Longrightarrow> i < length xs \<and> P (xs ! i)"
proof (induction xs arbitrary: i)
  case Nil
  then show ?case by simp
next
  case (Cons x xs)
  then show ?case by (cases "P x") (auto simp: nth_Cons split: nat.splits)
qed

lemma applyMove_effect:
  assumes pi: "pi < length (players r)" and toks: "tokens (players r ! pi) = Some toks"
    and ti: "ti < length toks"
  shows "length (players (fst (applyMove g r pi tok ti fi))) = length (players r)"
    and "\<And>i. i \<noteq> pi \<Longrightarrow> players (fst (applyMove g r pi tok ti fi)) ! i = players r ! i"
    and "color (players (fst (applyMove g r pi tok ti fi)) ! pi) = color (players r ! pi)"
    and "tokens (players (fst (applyMove g r pi tok ti fi)) ! pi)
           = Some (toks[ti := movedToken g r pi tok fi])"
    and "moveValidated (fst (applyMove g r pi tok ti fi)) = Some True"
  using assms
  by (auto simp: applyMove_def recordFinish_def setToken_def movedToken_def Let_def
      split: prod.splits if_splits option.splits)

lemma commitMove_rel:
  "\<exists>lc. killRel g (color (players (fst (applyMove g r pi tok ti fi)) ! pi)) lc
           (fst (applyMove g r pi tok ti fi))
           (resRoom (commitMove g r pi tokenId tok ti prevPos fi))"
proof -
  obtain r3 evs2 where am: "applyMove g r pi tok ti fi = (r3, evs2)"
    by (cases "applyMove g r pi tok ti fi")
  let ?evs3 = "evs2 @ [PlayerMoved (playerId (players r3 ! pi)) (color (players r3 ! pi)) tokenId prevPos
                  (map_option position (readToken (players r3 ! pi) tokenId))
                  [prevPos + 1 .. (case map_option position (readToken (players r3 ! pi) tokenId) of
                                     Some p \<Rightarrow> p | None \<Rightarrow> - 1)] (dice r3)]"
  have res: "resRoom (commitMove g r pi tokenId tok ti prevPos fi)
               = fst (snd (killCheck g pi tokenId (r3, ?evs3)))"
    by (simp add: commitMove_def am Let_def split: prod.splits)
  from killCheck_rel [of g "(r3, ?evs3)" pi tokenId] show ?thesis
    by (simp add: am res)
qed

lemma commitMove_protected:
  assumes "\<forall>mt. readToken (players (fst (applyMove g r pi tok ti fi)) ! pi) tokenId = Some mt \<longrightarrow>
             (case at (getPath g (color (players (fst (applyMove g r pi tok ti fi)) ! pi))) (position mt) of
                Some c \<Rightarrow> c \<in> set (safeCells g) | None \<Rightarrow> False)
             \<or> position mt \<ge> int (length (getPath g (color (players (fst (applyMove g r pi tok ti fi)) ! pi)))) - 6"
  shows "resRoom (commitMove g r pi tokenId tok ti prevPos fi) = fst (applyMove g r pi tok ti fi)"
proof -
  obtain r3 evs2 where am: "applyMove g r pi tok ti fi = (r3, evs2)"
    by (cases "applyMove g r pi tok ti fi")
  let ?evs3 = "evs2 @ [PlayerMoved (playerId (players r3 ! pi)) (color (players r3 ! pi)) tokenId prevPos
                  (map_option position (readToken (players r3 ! pi) tokenId))
                  [prevPos + 1 .. (case map_option position (readToken (players r3 ! pi) tokenId) of
                                     Some p \<Rightarrow> p | None \<Rightarrow> - 1)] (dice r3)]"
  have "killCheck g pi tokenId (r3, ?evs3) = (False, (r3, ?evs3))"
    by (rule killCheck_protected) (use assms am in simp)
  then show ?thesis by (simp add: commitMove_def am Let_def)
qed

lemma updateTokenPosition_cases:
  obtains (reject) "resRoom (updateTokenPosition g r pid tokenId clientPos) = r"
  | (accept) pi toks ti where
      "findIndex (\<lambda>p. playerId p = pid) (players r) = Some pi"
      "tokens (players r ! pi) = Some toks"
      "int ti = resolveTokenIndex tokenId" "ti < length toks"
      "\<not> isFinished (toks ! ti)" "awaitingMove r"
      "desiredIndex (position (toks ! ti)) (dice r) clientPos
         \<le> int (length (getPath g (color (players r ! pi)))) - 1"
      "updateTokenPosition g r pid tokenId clientPos
         = commitMove g r pi tokenId (toks ! ti) ti (position (toks ! ti))
             (desiredIndex (position (toks ! ti)) (dice r) clientPos)"
proof (cases "resRoom (updateTokenPosition g r pid tokenId clientPos) = r")
  case True
  then show ?thesis by (rule reject)
next
  case False
  then obtain pi where pi: "findIndex (\<lambda>p. playerId p = pid) (players r) = Some pi"
    by (auto simp: updateTokenPosition_def split: option.splits)
  from False pi obtain toks where toks: "tokens (players r ! pi) = Some toks"
    by (auto simp: updateTokenPosition_def Let_def split: option.splits if_splits)
  let ?ti = "nat (resolveTokenIndex tokenId)"
  from False pi toks have rng: "0 \<le> resolveTokenIndex tokenId" "resolveTokenIndex tokenId < int (length toks)"
    by (auto simp: updateTokenPosition_def Let_def split: option.splits if_splits)
  from False pi toks rng have rest: "\<not> isFinished (toks ! ?ti)" "awaitingMove r"
      "desiredIndex (position (toks ! ?ti)) (dice r) clientPos
         \<le> int (length (getPath g (color (players r ! pi)))) - 1"
      "updateTokenPosition g r pid tokenId clientPos
         = commitMove g r pi tokenId (toks ! ?ti) ?ti (position (toks ! ?ti))
             (desiredIndex (position (toks ! ?ti)) (dice r) clientPos)"
    by (auto simp: updateTokenPosition_def Let_def split: option.splits if_splits)
  show ?thesis
    by (rule accept [of pi toks ?ti]) (use pi toks rng rest in simp_all)
qed

lemma commitMove_mover:
  assumes pi: "pi < length (players r)" and toks: "tokens (players r ! pi) = Some toks"
    and ti: "ti < length toks"
  shows "players (resRoom (commitMove g r pi tokenId tok ti prevPos fi)) ! pi
           = players (fst (applyMove g r pi tok ti fi)) ! pi"
    and "length (players (resRoom (commitMove g r pi tokenId tok ti prevPos fi))) = length (players r)"
    and "moveValidated (resRoom (commitMove g r pi tokenId tok ti prevPos fi)) = Some True"
proof -
  let ?r3 = "fst (applyMove g r pi tok ti fi)"
  let ?r4 = "resRoom (commitMove g r pi tokenId tok ti prevPos fi)"
  from commitMove_rel [of g r pi tok ti fi tokenId prevPos]
  obtain lc where rel: "killRel g (color (players ?r3 ! pi)) lc ?r3 ?r4" by blast
  have len3: "length (players ?r3) = length (players r)"
    using applyMove_effect(1) [OF assms] .
  from killRel_playerRel [OF rel, of pi] pi len3
  have "playerRel g (color (players ?r3 ! pi)) lc (players ?r3 ! pi) (players ?r4 ! pi)" by simp
  then show "players ?r4 ! pi = players ?r3 ! pi" by (rule playerRel_same_color) simp
  show "length (players ?r4) = length (players r)" using rel len3 by (simp add: killRel_def)
  from rel have "?r4\<lparr>players := players ?r3, killExtraTurn := killExtraTurn ?r3\<rparr> = ?r3"
    by (simp add: killRel_def)
  then have "moveValidated (?r4\<lparr>players := players ?r3, killExtraTurn := killExtraTurn ?r3\<rparr>)
               = moveValidated ?r3"
    by (rule arg_cong)
  then have "moveValidated ?r4 = moveValidated ?r3" by simp
  then show "moveValidated ?r4 = Some True"
    using applyMove_effect(5) [OF assms] by simp
qed

lemma updateTokenPosition_token:
  assumes t: "tokenAt r i j = Some t"
  shows "tokenAt (resRoom (updateTokenPosition g r pid tokenId clientPos)) i j = Some t
       \<or> (\<exists>lc. tokenAt (resRoom (updateTokenPosition g r pid tokenId clientPos)) i j = Some (killedToken t)
               \<and> findIndex (\<lambda>p. playerId p = pid) (players r) \<noteq> Some i
               \<and> killable g lc (players r ! i) j)
       \<or> (findIndex (\<lambda>p. playerId p = pid) (players r) = Some i
            \<and> int j = resolveTokenIndex tokenId \<and> \<not> isFinished t \<and> awaitingMove r
            \<and> desiredIndex (position t) (dice r) clientPos
                 \<le> int (length (getPath g (color (players r ! i)))) - 1
            \<and> moveValidated (resRoom (updateTokenPosition g r pid tokenId clientPos)) = Some True
            \<and> tokenAt (resRoom (updateTokenPosition g r pid tokenId clientPos)) i j
                 = Some (movedToken g r i t (desiredIndex (position t) (dice r) clientPos)))"
proof (cases rule: updateTokenPosition_cases
    [where g = g and r = r and pid = pid and tokenId = tokenId and clientPos = clientPos])
  case reject
  then show ?thesis using t by simp
next
  case (accept pi toks ti)
  let ?fi = "desiredIndex (position (toks ! ti)) (dice r) clientPos"
  let ?r3 = "fst (applyMove g r pi (toks ! ti) ti ?fi)"
  let ?r4 = "resRoom (updateTokenPosition g r pid tokenId clientPos)"
  from findIndex_Some [OF accept(1)] have pi: "pi < length (players r)" by simp
  from t obtain ts where il: "i < length (players r)" and ts: "tokens (players r ! i) = Some ts"
    and j: "j < length ts" and tj: "ts ! j = t" by (auto simp: tokenAt_eq)
  note am = applyMove_effect [OF pi accept(2) accept(4), where g = g and tok = "toks ! ti" and fi = ?fi]
  note cm = commitMove_mover [OF pi accept(2) accept(4), where g = g and tokenId = tokenId
        and tok = "toks ! ti" and prevPos = "position (toks ! ti)" and fi = ?fi]
  show ?thesis
  proof (cases "i = pi")
    case True
    with ts accept(2) have [simp]: "ts = toks" by simp
    have tk: "tokenAt ?r4 i j = Some ((toks[ti := movedToken g r pi (toks ! ti) ?fi]) ! j)"
      using True il j unfolding accept(8) by (simp add: tokenAt_eq cm am)
    show ?thesis
    proof (cases "j = ti")
      case False
      then show ?thesis using tk tj by simp
    next
      case jt: True
      have "moveValidated ?r4 = Some True" unfolding accept(8) by (rule cm(3))
      then show ?thesis using tk tj True jt accept by simp
    qed
  next
    case False
    have same: "players ?r3 ! i = players r ! i" using am(2) [OF False] .
    from commitMove_rel [of g r pi "toks ! ti" ti ?fi tokenId "position (toks ! ti)"]
    obtain lc where rel: "killRel g (color (players ?r3 ! pi)) lc ?r3 ?r4"
      unfolding accept(8) by blast
    from killRel_playerRel [OF rel, of i] il am(1) same
    have "playerRel g (color (players ?r3 ! pi)) lc (players r ! i) (players ?r4 ! i)" by simp
    from playerRel_token [OF this ts j] obtain ts' where
      ts': "tokens (players ?r4 ! i) = Some ts'" "length ts' = length ts"
      "ts' ! j = ts ! j \<or> (ts' ! j = killedToken (ts ! j) \<and> killable g lc (players r ! i) j)"
      by blast
    have "length (players ?r4) = length (players r)" unfolding accept(8) by (rule cm(2))
    then have "tokenAt ?r4 i j = Some (ts' ! j)" using il j ts' by (simp add: tokenAt_eq)
    with ts'(3) tj False accept(1) show ?thesis by auto
  qed
qed

text \<open>
  The loop does capture: a single red token on a shared cell that is neither safe nor in
  a home stretch goes back to the base when blue lands on it, and the capture extra turn
  is granted.
\<close>

lemma single_token_is_captured:
  "tokenAt (resRoom (updateTokenPosition exGeometry (exRoomTwo 1 2 1 (- 1)) ''a'' (TokNum 0) None)) 1 0
     = Some (mkToken ''T1'' (- 1) False)
   \<and> killExtraTurn (resRoom (updateTokenPosition exGeometry (exRoomTwo 1 2 1 (- 1)) ''a'' (TokNum 0) None))"
  by code_simp

section \<open>The tokens under rollDice and moveDone\<close>

lemma tokenAt_cong:
  assumes "length (players r') = length (players r)"
    and "\<And>i. i < length (players r) \<Longrightarrow> tokens (players r' ! i) = tokens (players r ! i)"
  shows "tokenAt r' i j = tokenAt r i j"
  using assms by (simp add: tokenAt_def at_def)

lemma setSixes_tokenAt: "tokenAt (setSixes r ci n) i j = tokenAt r i j"
proof (rule tokenAt_cong)
  show "length (players (setSixes r ci n)) = length (players r)" by (simp add: setSixes_def)
next
  fix i assume "i < length (players r)"
  then show "tokens (players (setSixes r ci n) ! i) = tokens (players r ! i)"
    by (cases "i = ci") (simp_all add: setSixes_def)
qed

lemma updateRoomTurn_tokenAt: "tokenAt (updateRoomTurn r) i j = tokenAt r i j"
  by (rule tokenAt_cong) (simp_all add: updateRoomTurn_frame)

lemma tokenAt_flags:
  "tokenAt (r\<lparr>isRolling := a\<rparr>) i j = tokenAt r i j"
  "tokenAt (r\<lparr>dice := d\<rparr>) i j = tokenAt r i j"
  "tokenAt (r\<lparr>awaitingMove := b\<rparr>) i j = tokenAt r i j"
  "tokenAt (r\<lparr>moveValidated := c\<rparr>) i j = tokenAt r i j"
  "tokenAt (r\<lparr>turnIndex := n\<rparr>) i j = tokenAt r i j"
  by (simp_all add: tokenAt_def)

lemma rollDice_tokenAt: "tokenAt (resRoom (rollDice r sid rnd cheat)) i j = tokenAt r i j"
  by (auto simp: rollDice_def rollDiceStart_def rollDiceTimeout_def Let_def
      updateRoomTurn_tokenAt setSixes_tokenAt tokenAt_flags split: option.splits)

lemma rollDiceTimeout_tokenAt: "tokenAt (fst (rollDiceTimeout r ci diceValue)) i j = tokenAt r i j"
  by (auto simp: rollDiceTimeout_def Let_def updateRoomTurn_tokenAt setSixes_tokenAt tokenAt_flags)

lemma turnLogic_players: "turnLogic r cp n = Some r' \<Longrightarrow> players r' = players r"
  by (auto simp: turnLogic_def Let_def split: option.splits if_splits)

lemma moveDone_players: "players (resRoom (moveDone r pid tokenId n)) = players r"
  by (auto simp: moveDone_def Let_def updateRoomTurn_frame dest: turnLogic_players
      split: option.splits)

lemma moveDone_tokenAt: "tokenAt (resRoom (moveDone r pid tokenId n)) i j = tokenAt r i j"
  by (simp add: tokenAt_def moveDone_players)

lemma updateTokenPosition_guarded:
  assumes mover: "findIndex (\<lambda>p. playerId p = pid) (players r) = Some pi"
    and turn: "at (players r) (int (turnIndex r)) = Some cp" "playerId cp = pid"
    and aw: "awaitingMove r"
    and toks: "tokens (players r ! pi) = Some toks"
    and ti: "0 \<le> resolveTokenIndex tokenId" "resolveTokenIndex tokenId < int (length toks)"
    and nf: "\<not> isFinished (toks ! nat (resolveTokenIndex tokenId))"
    and nb: "\<not> (clientPos = Some (- 1) \<and> position (toks ! nat (resolveTokenIndex tokenId)) \<ge> 0)"
  shows "updateTokenPosition g r pid tokenId clientPos =
           (let tok = toks ! nat (resolveTokenIndex tokenId);
                di = desiredIndex (position tok) (dice r) clientPos
            in if di > int (length (getPath g (color (players r ! pi)))) - 1
               then Done r [ErrorMessage ''Invalid move: must roll exact number to enter home'']
               else commitMove g r pi tokenId tok (nat (resolveTokenIndex tokenId)) (position tok) di)"
  using assms by (auto simp: updateTokenPosition_def Let_def)

section \<open>The advancement loop of moveDone\<close>

lemma advanceLoop_spec:
  assumes "len = length ps" and "\<forall>p \<in> set ps. tokens p \<noteq> None" and "nextIndex < len"
  shows "\<exists>n. advanceLoop ps len nextIndex it = Some n \<and> n < len
            \<and> (\<not> playerDone (ps ! n)
                 \<or> (\<forall>k < len - it. playerDone (ps ! ((nextIndex + k) mod len))))"
  using assms
proof (induction ps len nextIndex it rule: advanceLoop.induct)
  case (1 ps len nextIndex iterations)
  note unf = advanceLoop.simps [of ps len nextIndex iterations]
  show ?case
  proof (cases "iterations < len")
    case False
    then have "advanceLoop ps len nextIndex iterations = Some nextIndex" by (subst unf) simp
    with False "1.prems"(3) show ?thesis by simp
  next
    case True
    from "1.prems"(1,3) have inr: "at ps (int nextIndex) = Some (ps ! nextIndex)" by (simp add: at_def)
    from "1.prems"(1,3) have "ps ! nextIndex \<in> set ps" by simp
    with "1.prems"(2) obtain ts where ts: "tokens (ps ! nextIndex) = Some ts" by auto
    show ?thesis
    proof (cases "everyFinished ts")
      case False
      have "advanceLoop ps len nextIndex iterations = Some nextIndex"
        using True inr ts False by (subst unf) simp
      moreover have "\<not> playerDone (ps ! nextIndex)" using ts False by (simp add: playerDone_def)
      ultimately show ?thesis using "1.prems"(3) by blast
    next
      case ef: True
      have lt: "(nextIndex + 1) mod len < len" using "1.prems"(3) by simp
      from "1.IH" [OF True inr ts ef "1.prems"(1,2) lt]
      obtain n where n: "advanceLoop ps len ((nextIndex + 1) mod len) (iterations + 1) = Some n"
        "n < len"
        "\<not> playerDone (ps ! n)
           \<or> (\<forall>k < len - (iterations + 1). playerDone (ps ! (((nextIndex + 1) mod len + k) mod len)))"
        by blast
      have step: "advanceLoop ps len nextIndex iterations = Some n"
        using True inr ts ef n(1) by (subst unf) simp
      have "\<forall>k < len - iterations. playerDone (ps ! ((nextIndex + k) mod len))"
        if all: "\<forall>k < len - (iterations + 1). playerDone (ps ! (((nextIndex + 1) mod len + k) mod len))"
      proof (intro allI impI)
        fix k assume k: "k < len - iterations"
        show "playerDone (ps ! ((nextIndex + k) mod len))"
        proof (cases k)
          case 0
          then show ?thesis using "1.prems"(3) ts ef by (simp add: playerDone_def)
        next
          case (Suc k')
          with k have "k' < len - (iterations + 1)" by simp
          with all have "playerDone (ps ! (((nextIndex + 1) mod len + k') mod len))" by blast
          moreover have "((nextIndex + 1) mod len + k') mod len = (nextIndex + k) mod len"
            using Suc by (simp add: mod_add_left_eq)
          ultimately show ?thesis by simp
        qed
      qed
      with n step show ?thesis by blast
    qed
  qed
qed

lemma all_indices_reached:
  assumes "start < len" and "m < (len::nat)"
  shows "\<exists>k < len. (start + k) mod len = m"
proof (cases "start \<le> m")
  case True
  then have "m - start < len" "(start + (m - start)) mod len = m" using assms by simp_all
  then show ?thesis by blast
next
  case False
  then have "m + len - start < len" using assms by simp
  moreover have "start + (m + len - start) = m + len" using assms by simp
  then have "(start + (m + len - start)) mod len = m" using assms by simp
  ultimately show ?thesis by blast
qed

lemma advanceTurn_spec:
  assumes wf: "turnLen r = length (players r)" "\<forall>p \<in> set (players r). tokens p \<noteq> None"
    and ne: "players r \<noteq> []"
  shows "\<exists>n. advanceTurn r = Some n \<and> n < length (players r)
            \<and> (\<not> playerDone (players r ! n) \<or> (\<forall>p \<in> set (players r). playerDone p))"
proof -
  define len where "len = length (players r)"
  define start where "start = (turnIndex r + 1) mod len"
  have pos: "0 < len" using ne by (simp add: len_def)
  then have lt: "start < len" by (simp add: start_def)
  have "\<exists>n. advanceLoop (players r) len start 0 = Some n \<and> n < len
            \<and> (\<not> playerDone (players r ! n)
                 \<or> (\<forall>k < len - 0. playerDone (players r ! ((start + k) mod len))))"
    by (rule advanceLoop_spec [OF len_def wf(2) lt])
  then obtain n where n1: "advanceLoop (players r) len start 0 = Some n" and n2: "n < len"
    and n3: "\<not> playerDone (players r ! n)
                 \<or> (\<forall>k < len. playerDone (players r ! ((start + k) mod len)))"
    by (elim exE conjE) simp
  have allp: "\<forall>p \<in> set (players r). playerDone p"
    if all: "\<forall>k < len. playerDone (players r ! ((start + k) mod len))"
  proof
    fix p assume "p \<in> set (players r)"
    then obtain m where m: "m < len" "players r ! m = p"
      unfolding len_def in_set_conv_nth by blast
    from all_indices_reached [OF lt m(1)] obtain k where "k < len" "(start + k) mod len = m"
      by blast
    with all m(2) show "playerDone p" by metis
  qed
  have "advanceTurn r = Some n"
    unfolding advanceTurn_def wf(1) using n1 by (simp add: len_def start_def)
  moreover have "n < length (players r)" using n2 by (simp add: len_def)
  moreover have "\<not> playerDone (players r ! n) \<or> (\<forall>p \<in> set (players r). playerDone p)"
    using n3 allp by blast
  ultimately show ?thesis by blast
qed

lemma turnLen_awaiting [simp]: "turnLen (r\<lparr>awaitingMove := b\<rparr>) = turnLen r"
  by (simp add: turnLen_def split: option.splits)

lemma turnLogic_spec:
  assumes cur: "at (players r) (int (turnIndex r)) = Some cp"
    and wf: "turnLen r = length (players r)" "\<forall>p \<in> set (players r). tokens p \<noteq> None"
    and nk: "noExtraTurnOn6 \<or> \<not> killExtraTurn r \<or> \<not> playerDone cp"
  shows "\<exists>r2. turnLogic r cp noExtraTurnOn6 = Some r2 \<and> players r2 = players r
            \<and> awaitingMove r2 = awaitingMove r
            \<and> turnIndex r2 < length (players r)
            \<and> (\<not> playerDone (players r ! turnIndex r2) \<or> (\<forall>p \<in> set (players r). playerDone p))"
proof -
  from cur have ti: "turnIndex r < length (players r)" and cp: "players r ! turnIndex r = cp"
    by (simp_all add: at_Some_iff)
  then have ne: "players r \<noteq> []" by auto
  from ti cp wf(2) obtain cts where cts: "tokens cp = Some cts" by (metis nth_mem not_None_eq)
  then have dn: "playerDone cp = everyFinished cts" by (simp add: playerDone_def)
  from advanceTurn_spec [OF wf ne] obtain n where n: "advanceTurn r = Some n"
    "n < length (players r)"
    "\<not> playerDone (players r ! n) \<or> (\<forall>p \<in> set (players r). playerDone p)" by blast
  show ?thesis
    using cts dn n ti cp nk
    by (auto simp: turnLogic_def Let_def)
qed

section \<open>The three-sixes penalty\<close>

text \<open>
  Claim C4 says that a third consecutive six gives no move: no token move is accepted for
  that roll, and the turn passes before any move is accepted. The handler knows at the
  roll that the penalty will fire (\<^verbatim>\<open>isThreeSixPenalty\<close>) and its callback is commented
  \<^verbatim>\<open>3 SIX PENALTY - NO MOVE ALLOWED THIS TURN\<close>, yet it sets \<open>awaitingMove\<close> at once and
  applies the penalty only in the callback of a 600 ms timer. In the run below the
  roller has two sixes, rolls a third, and sends a move before the callback runs: the
  move is accepted (the token leaves the base for index 0), and only then the callback
  resets the counter, clears \<open>awaitingMove\<close> and passes the turn.
\<close>

theorem move_between_roll_and_penalty_is_accepted:
  "map_option consecutiveSixes (at (players exRoomSixes) 0) = Some 2
   \<and> map_option (\<lambda>(r1, evs, ci, diceValue). (ci, diceValue))
        (rollDiceStart exRoomSixes ''a'' 3 (Some 6) :: (room \<times> nat event list \<times> nat \<times> int) option)
        = Some (0, 6)
   \<and> awaitingMove exRoomRolled \<and> dice exRoomRolled = 6 \<and> turnIndex exRoomRolled = 0
   \<and> tokenAt exRoomRolled 0 0 = Some (mkToken ''T1'' (- 1) False)
   \<and> tokenAt exRoomRolledMoved 0 0 = Some (mkToken ''T1'' 0 False)
   \<and> moveValidated exRoomRolledMoved = Some True
   \<and> map_option consecutiveSixes (at (players exRoomRolledDone) 0) = Some 0
   \<and> \<not> awaitingMove exRoomRolledDone
   \<and> turnIndex exRoomRolledDone = 1
   \<and> tokenAt exRoomRolledDone 0 0 = Some (mkToken ''T1'' 0 False)"
  by code_simp

text \<open>
  The callback on its own does what its comments say. Whenever it raises, on a six, the
  counter of the roller to three, it clears \<open>awaitingMove\<close>, so that from then on every
  \<open>updateTokenPosition\<close> request leaves the room as it is, it resets the counter to 0, and it
  moves the turn index to another place as soon as the turn order (the list of players
  when there is no turn order) has two entries. What it cannot undo is a move accepted
  before it ran.
\<close>

lemma penalty_callback_skips_move_and_passes_turn:
  fixes g :: "'c geometry"
  assumes ci: "ci < length (players r)" and six: "consecutiveSixes (players r ! ci) + 1 \<ge> 3"
  shows "\<not> awaitingMove (fst (rollDiceTimeout r ci 6 :: room \<times> 'c event list))"
    and "consecutiveSixes (players (fst (rollDiceTimeout r ci 6 :: room \<times> 'c event list)) ! ci) = 0"
    and "resRoom (updateTokenPosition g (fst (rollDiceTimeout r ci 6 :: room \<times> 'c event list))
                    pid tokenId clientPos)
           = fst (rollDiceTimeout r ci 6 :: room \<times> 'c event list)"
    and "turnOrder r = Some order \<and> 2 \<le> length order
           \<longrightarrow> turnIndex (fst (rollDiceTimeout r ci 6 :: room \<times> 'c event list)) \<noteq> turnIndex r"
    and "(turnOrder r = None \<or> turnOrder r = Some []) \<and> 2 \<le> length (players r)
           \<longrightarrow> turnIndex (fst (rollDiceTimeout r ci 6 :: room \<times> 'c event list)) \<noteq> turnIndex r"
proof -
  from rollDiceTimeout_penalty [OF ci six, where ?'a = 'c]
  obtain r' where r': "fst (rollDiceTimeout r ci 6 :: room \<times> 'c event list) = r'"
    and na: "\<not> awaitingMove r'"
    and ti: "turnIndex r' = (turnIndex r + 1) mod turnLen r"
    and ps: "players r' = (players r)[ci := (players r ! ci)\<lparr>consecutiveSixes := 0\<rparr>]"
    by force
  show "\<not> awaitingMove (fst (rollDiceTimeout r ci 6 :: room \<times> 'c event list))"
    using na by (simp add: r')
  show "consecutiveSixes (players (fst (rollDiceTimeout r ci 6 :: room \<times> 'c event list)) ! ci) = 0"
    using ps ci by (simp add: r')
  show "resRoom (updateTokenPosition g (fst (rollDiceTimeout r ci 6 :: room \<times> 'c event list))
                    pid tokenId clientPos)
           = fst (rollDiceTimeout r ci 6 :: room \<times> 'c event list)"
    using na by (simp add: r' updateTokenPosition_not_awaiting)
  show "turnOrder r = Some order \<and> 2 \<le> length order
           \<longrightarrow> turnIndex (fst (rollDiceTimeout r ci 6 :: room \<times> 'c event list)) \<noteq> turnIndex r"
  proof
    assume o: "turnOrder r = Some order \<and> 2 \<le> length order"
    then have "order \<noteq> []" by auto
    with o have "turnLen r = length order" by (simp add: turnLen_order)
    with o ti show "turnIndex (fst (rollDiceTimeout r ci 6 :: room \<times> 'c event list)) \<noteq> turnIndex r"
      using succ_mod_neq [of "length order" "turnIndex r"] by (simp add: r')
  qed
  show "(turnOrder r = None \<or> turnOrder r = Some []) \<and> 2 \<le> length (players r)
           \<longrightarrow> turnIndex (fst (rollDiceTimeout r ci 6 :: room \<times> 'c event list)) \<noteq> turnIndex r"
  proof
    assume o: "(turnOrder r = None \<or> turnOrder r = Some []) \<and> 2 \<le> length (players r)"
    then have "turnLen r = length (players r)" by (simp add: turnLen_players)
    with o ti show "turnIndex (fst (rollDiceTimeout r ci 6 :: room \<times> 'c event list)) \<noteq> turnIndex r"
      using succ_mod_neq [of "length (players r)" "turnIndex r"] by (simp add: r')
  qed
qed

text \<open>
  Claim C10. When the penalty fires (in the timer callback, and so in the roll as a
  whole), the turn index becomes the old index plus one modulo the length of the turn
  order (\<open>turnOrder\<close> when it is a non-empty array, and modulo the number of players when it
  is absent or empty), whatever the tokens of the next player are. In the room
  \<open>exRoomSixes\<close> the player after the roller has finished all four tokens and a third
  player has not: the penalty gives the turn to the finished player, where the
  advancement of \<open>moveDone\<close> would skip to the third. In the room \<open>exRoomShortOrder\<close>, of
  three players and a turn order of two, the index goes from 1 to 0.
\<close>

theorem penalty_advances_by_one_without_skipping:
  "(ci < length (players r) \<and> consecutiveSixes (players r ! ci) + 1 \<ge> 3 \<longrightarrow>
      (\<forall>order. turnOrder r = Some order \<and> order \<noteq> [] \<longrightarrow>
          turnIndex (fst (rollDiceTimeout r ci 6 :: room \<times> 'c event list))
            = (turnIndex r + 1) mod length order)
    \<and> (turnOrder r = None \<or> turnOrder r = Some [] \<longrightarrow>
          turnIndex (fst (rollDiceTimeout r ci 6 :: room \<times> 'c event list))
            = (turnIndex r + 1) mod length (players r)))
   \<and> (\<not> isRolling r \<and> at (players r) (int (turnIndex r)) = Some cp \<and> playerId cp = sid
      \<and> chosenDice rnd cheat = 6 \<and> consecutiveSixes cp + 1 \<ge> 3 \<longrightarrow>
      (\<forall>order. turnOrder r = Some order \<and> order \<noteq> [] \<longrightarrow>
          turnIndex (resRoom (rollDice r sid rnd cheat :: 'c result))
            = (turnIndex r + 1) mod length order)
    \<and> (turnOrder r = None \<or> turnOrder r = Some [] \<longrightarrow>
          turnIndex (resRoom (rollDice r sid rnd cheat :: 'c result))
            = (turnIndex r + 1) mod length (players r)))
   \<and> (let r' = resRoom (rollDice exRoomSixes ''a'' 3 (Some 6) :: 'c result) in
        turnIndex r' = 1
      \<and> map_option allFinished (at (players r') (int (turnIndex r'))) = Some True
      \<and> map_option allFinished (at (players r') 2) = Some False
      \<and> advanceTurn exRoomSixes = Some 2)"
proof (intro conjI impI allI)
  fix order
  assume "ci < length (players r) \<and> consecutiveSixes (players r ! ci) + 1 \<ge> 3"
    and o: "turnOrder r = Some order \<and> order \<noteq> []"
  then have "\<exists>r'. rollDiceTimeout r ci 6 =
           (r', [RoomErrorMessage (name (players r ! ci) @ '' rolled 3 sixes! Turn skipped.''),
                 GameState :: 'c event])
         \<and> \<not> awaitingMove r' \<and> \<not> isRolling r' \<and> dice r' = dice r
         \<and> turnIndex r' = (turnIndex r + 1) mod turnLen r
         \<and> players r' = (players r)[ci := (players r ! ci)\<lparr>consecutiveSixes := 0\<rparr>]"
    by (intro rollDiceTimeout_penalty) simp_all
  then have "turnIndex (fst (rollDiceTimeout r ci 6 :: room \<times> 'c event list))
           = (turnIndex r + 1) mod turnLen r"
    by force
  then show "turnIndex (fst (rollDiceTimeout r ci 6 :: room \<times> 'c event list))
           = (turnIndex r + 1) mod length order"
    using o by (simp add: turnLen_order)
next
  assume "ci < length (players r) \<and> consecutiveSixes (players r ! ci) + 1 \<ge> 3"
    and o: "turnOrder r = None \<or> turnOrder r = Some []"
  then have "\<exists>r'. rollDiceTimeout r ci 6 =
           (r', [RoomErrorMessage (name (players r ! ci) @ '' rolled 3 sixes! Turn skipped.''),
                 GameState :: 'c event])
         \<and> \<not> awaitingMove r' \<and> \<not> isRolling r' \<and> dice r' = dice r
         \<and> turnIndex r' = (turnIndex r + 1) mod turnLen r
         \<and> players r' = (players r)[ci := (players r ! ci)\<lparr>consecutiveSixes := 0\<rparr>]"
    by (intro rollDiceTimeout_penalty) simp_all
  then have "turnIndex (fst (rollDiceTimeout r ci 6 :: room \<times> 'c event list))
           = (turnIndex r + 1) mod turnLen r"
    by force
  then show "turnIndex (fst (rollDiceTimeout r ci 6 :: room \<times> 'c event list))
           = (turnIndex r + 1) mod length (players r)"
    using o by (simp add: turnLen_players)
next
  fix order
  assume a: "\<not> isRolling r \<and> at (players r) (int (turnIndex r)) = Some cp \<and> playerId cp = sid
      \<and> chosenDice rnd cheat = 6 \<and> consecutiveSixes cp + 1 \<ge> 3"
    and o: "turnOrder r = Some order \<and> order \<noteq> []"
  from a have "\<exists>r'. rollDice r sid rnd cheat =
           (Done r' [DiceRolled 6 sid True, DiceRolledAll 6 sid True,
                    RoomErrorMessage (name cp @ '' rolled 3 sixes! Turn skipped.''), GameState] :: 'c result)
         \<and> \<not> awaitingMove r' \<and> \<not> isRolling r' \<and> dice r' = 6
         \<and> turnIndex r' = (turnIndex r + 1) mod turnLen r
         \<and> players r' = (players r)[turnIndex r := cp\<lparr>consecutiveSixes := 0\<rparr>]"
    by (intro rollDice_penalty) simp_all
  then have "turnIndex (resRoom (rollDice r sid rnd cheat :: 'c result))
           = (turnIndex r + 1) mod turnLen r"
    by auto
  then show "turnIndex (resRoom (rollDice r sid rnd cheat :: 'c result))
           = (turnIndex r + 1) mod length order"
    using o by (simp add: turnLen_order)
next
  assume a: "\<not> isRolling r \<and> at (players r) (int (turnIndex r)) = Some cp \<and> playerId cp = sid
      \<and> chosenDice rnd cheat = 6 \<and> consecutiveSixes cp + 1 \<ge> 3"
    and o: "turnOrder r = None \<or> turnOrder r = Some []"
  from a have "\<exists>r'. rollDice r sid rnd cheat =
           (Done r' [DiceRolled 6 sid True, DiceRolledAll 6 sid True,
                    RoomErrorMessage (name cp @ '' rolled 3 sixes! Turn skipped.''), GameState] :: 'c result)
         \<and> \<not> awaitingMove r' \<and> \<not> isRolling r' \<and> dice r' = 6
         \<and> turnIndex r' = (turnIndex r + 1) mod turnLen r
         \<and> players r' = (players r)[turnIndex r := cp\<lparr>consecutiveSixes := 0\<rparr>]"
    by (intro rollDice_penalty) simp_all
  then have "turnIndex (resRoom (rollDice r sid rnd cheat :: 'c result))
           = (turnIndex r + 1) mod turnLen r"
    by auto
  then show "turnIndex (resRoom (rollDice r sid rnd cheat :: 'c result))
           = (turnIndex r + 1) mod length (players r)"
    using o by (simp add: turnLen_players)
next
  have h1: "\<not> isRolling exRoomSixes" by (simp add: exRoomSixes_def mkRoom_def)
  have h2: "at (players exRoomSixes) (int (turnIndex exRoomSixes))
              = Some (mkPlayer ''a'' ''Ann'' ''blue'' baseTokens 2)"
    by (simp add: exRoomSixes_def mkRoom_def at_def)
  have h3: "playerId (mkPlayer ''a'' ''Ann'' ''blue'' baseTokens 2) = ''a''"
    by (simp add: mkPlayer_def)
  have h4: "chosenDice 3 (Some 6) = 6" by (simp add: chosenDice_def)
  have h5: "consecutiveSixes (mkPlayer ''a'' ''Ann'' ''blue'' baseTokens 2) + 1 \<ge> 3"
    by (simp add: mkPlayer_def)
  have tl: "turnLen exRoomSixes = 3" and t0: "turnIndex exRoomSixes = 0"
    by (simp_all add: exRoomSixes_def mkRoom_def turnLen_def)
  from rollDice_penalty [OF h1 h2 h3 h4 h5, where ?'a = 'c] obtain r' where
    r': "rollDice exRoomSixes ''a'' 3 (Some 6) =
           (Done r' [DiceRolled 6 ''a'' True, DiceRolledAll 6 ''a'' True,
                    RoomErrorMessage (name (mkPlayer ''a'' ''Ann'' ''blue'' baseTokens 2)
                       @ '' rolled 3 sixes! Turn skipped.''), GameState] :: 'c result)"
    and ti: "turnIndex r' = (turnIndex exRoomSixes + 1) mod turnLen exRoomSixes"
    and ps: "players r' = (players exRoomSixes)
               [turnIndex exRoomSixes := (mkPlayer ''a'' ''Ann'' ''blue'' baseTokens 2)\<lparr>consecutiveSixes := 0\<rparr>]"
    by blast
  have adv: "advanceTurn exRoomSixes = Some 2" by code_simp
  show "let r' = resRoom (rollDice exRoomSixes ''a'' 3 (Some 6) :: 'c result) in
        turnIndex r' = 1
      \<and> map_option allFinished (at (players r') (int (turnIndex r'))) = Some True
      \<and> map_option allFinished (at (players r') 2) = Some False
      \<and> advanceTurn exRoomSixes = Some 2"
  proof -
    have ti1: "turnIndex r' = 1" using ti by (simp add: tl t0)
    have ps1: "players r' = [mkPlayer ''a'' ''Ann'' ''blue'' baseTokens 0,
             mkPlayer ''b'' ''Bob'' ''red'' homeTokens 0,
             mkPlayer ''c'' ''Cy'' ''green'' baseTokens 0]"
      using ps by (simp add: t0) (simp add: exRoomSixes_def mkRoom_def mkPlayer_def)
    show ?thesis
      using adv by (simp add: r' ti1 ps1 at_def allFinished_def mkPlayer_def everyFinished_def
        homeTokens_def baseTokens_def mkToken_def)
  qed
qed

theorem penalty_advances_by_one_without_skipping_witness:
  "\<not> isRolling exRoomShortOrder
   \<and> length (players exRoomShortOrder) = 3
   \<and> turnOrder exRoomShortOrder = Some [''a'', ''b'']
   \<and> turnIndex exRoomShortOrder = 1
   \<and> map_option playerId (at (players exRoomShortOrder) (int (turnIndex exRoomShortOrder))) = Some ''b''
   \<and> map_option consecutiveSixes (at (players exRoomShortOrder) (int (turnIndex exRoomShortOrder))) = Some 2
   \<and> chosenDice 5 None = 6
   \<and> turnIndex (resRoom (rollDice exRoomShortOrder ''b'' 5 None :: nat result)) = 0
   \<and> turnIndex (fst (rollDiceTimeout (awaiting exRoomShortOrder) 1 6 :: room \<times> nat event list)) = 0
   \<and> turnOrder (exRoomSixes\<lparr>turnOrder := None\<rparr>) = None
   \<and> turnIndex (exRoomSixes\<lparr>turnOrder := None\<rparr>) = 0
   \<and> turnIndex (resRoom (rollDice (exRoomSixes\<lparr>turnOrder := None\<rparr>) ''a'' 3 (Some 6) :: nat result)) = 1"
proof -
  let ?r = exRoomShortOrder
  let ?cp = "mkPlayer ''b'' ''Bob'' ''red'' baseTokens 2"
  have h1: "\<not> isRolling ?r" by (simp add: exRoomShortOrder_def mkRoom_def)
  have h2: "at (players ?r) (int (turnIndex ?r)) = Some ?cp"
    by (simp add: exRoomShortOrder_def mkRoom_def at_def)
  have h3: "playerId ?cp = ''b''" by (simp add: mkPlayer_def)
  have h4: "chosenDice 5 None = 6" by (simp add: chosenDice_def)
  have h5: "consecutiveSixes ?cp + 1 \<ge> 3" by (simp add: mkPlayer_def)
  have o: "turnOrder ?r = Some [''a'', ''b''] \<and> [''a'', ''b''] \<noteq> []"
    by (simp add: exRoomShortOrder_def mkRoom_def)
  have t1: "turnIndex ?r = 1" and l3: "length (players ?r) = 3"
    by (simp_all add: exRoomShortOrder_def mkRoom_def)
  have k: "1 < length (players (awaiting ?r)) \<and> consecutiveSixes (players (awaiting ?r) ! 1) + 1 \<ge> 3"
    by (simp add: awaiting_def exRoomShortOrder_def mkRoom_def mkPlayer_def)
  have o': "turnOrder (awaiting ?r) = Some [''a'', ''b''] \<and> [''a'', ''b''] \<noteq> []"
    and t1': "turnIndex (awaiting ?r) = 1"
    by (simp_all add: awaiting_def exRoomShortOrder_def mkRoom_def)
  note inst = penalty_advances_by_one_without_skipping
      [where r = ?r and cp = ?cp and sid = "''b''" and rnd = 5 and cheat = None and ?'c = nat]
  from inst h1 h2 h3 h4 h5 o
  have a: "turnIndex (resRoom (rollDice ?r ''b'' 5 None :: nat result))
             = (turnIndex ?r + 1) mod length [''a'', ''b'']"
    by blast
  note inst2 = penalty_advances_by_one_without_skipping
      [where r = "awaiting ?r" and ci = 1 and ?'c = nat]
  from inst2 k o'
  have b: "turnIndex (fst (rollDiceTimeout (awaiting ?r) 1 6 :: room \<times> nat event list))
             = (turnIndex (awaiting ?r) + 1) mod length [''a'', ''b'']"
    by blast
  let ?s = "exRoomSixes\<lparr>turnOrder := None\<rparr>"
  let ?cq = "mkPlayer ''a'' ''Ann'' ''blue'' baseTokens 2"
  have g1: "\<not> isRolling ?s" by (simp add: exRoomSixes_def mkRoom_def)
  have g2: "at (players ?s) (int (turnIndex ?s)) = Some ?cq"
    by (simp add: exRoomSixes_def mkRoom_def at_def)
  have g3: "playerId ?cq = ''a''" by (simp add: mkPlayer_def)
  have g4: "chosenDice 3 (Some 6) = 6" by (simp add: chosenDice_def)
  have g5: "consecutiveSixes ?cq + 1 \<ge> 3" by (simp add: mkPlayer_def)
  have go: "turnOrder ?s = None \<or> turnOrder ?s = Some []" by simp
  have gt: "turnIndex ?s = 0" and gl: "length (players ?s) = 3"
    by (simp_all add: exRoomSixes_def mkRoom_def)
  note inst3 = penalty_advances_by_one_without_skipping
      [where r = ?s and cp = ?cq and sid = "''a''" and rnd = 3 and cheat = "Some 6" and ?'c = nat]
  from inst3 g1 g2 g3 g4 g5 go
  have c: "turnIndex (resRoom (rollDice ?s ''a'' 3 (Some 6) :: nat result))
             = (turnIndex ?s + 1) mod length (players ?s)"
    by blast
  have p1: "map_option playerId (at (players ?r) (int (turnIndex ?r))) = Some ''b''"
    and p2: "map_option consecutiveSixes (at (players ?r) (int (turnIndex ?r))) = Some 2"
    using h2 by (simp_all add: mkPlayer_def)
  have a': "turnIndex (resRoom (rollDice ?r ''b'' 5 None :: nat result)) = 0"
    using a by (simp add: t1)
  have b': "turnIndex (fst (rollDiceTimeout (awaiting ?r) 1 6 :: room \<times> nat event list)) = 0"
    using b by (simp add: t1')
  have c': "turnIndex (resRoom (rollDice ?s ''a'' 3 (Some 6) :: nat result)) = 1"
    using c gt gl by simp
  from a' b' c' h1 h4 o t1 l3 p1 p2 gt show ?thesis
    by simp
qed

section \<open>Captures\<close>

text \<open>
  Claim C9. A token of a player other than the mover that stands at or past the index
  (length of its own path - 6), or whose finished flag is set, is the same after
  \<open>updateTokenPosition\<close> as before, whatever cell the mover lands on.
\<close>

theorem no_capture_of_token_in_own_home_stretch:
  assumes "tokenAt r e j = Some t" and "playerId (players r ! e) \<noteq> pid"
    and "position t \<ge> int (length (getPath g (color (players r ! e)))) - 6 \<or> isFinished t"
  shows "tokenAt (resRoom (updateTokenPosition g r pid tokenId clientPos)) e j = Some t"
proof -
  from assms(1) obtain ts where "tokens (players r ! e) = Some ts" "ts ! j = t"
    by (auto simp: tokenAt_eq)
  with assms(3) have "\<not> killable g lc (players r ! e) j" for lc
    by (auto simp: killable_def)
  moreover have "\<not> isFinished t \<longrightarrow> findIndex (\<lambda>p. playerId p = pid) (players r) \<noteq> Some e"
    using findIndex_Some [of "\<lambda>p. playerId p = pid" "players r" e] assms(2) by auto
  ultimately show ?thesis
    using updateTokenPosition_token [OF assms(1), of g pid tokenId clientPos] by blast
qed


theorem no_capture_of_token_in_own_home_stretch_witness:
  "tokenAt (exRoomTwo 1 0 7 (- 1)) 1 0 = Some (mkToken ''T1'' 7 False)
   \<and> playerId (players (exRoomTwo 1 0 7 (- 1)) ! 1) \<noteq> ''a''
   \<and> position (mkToken ''T1'' 7 False)
        \<ge> int (length (getPath exGeometry (color (players (exRoomTwo 1 0 7 (- 1)) ! 1)))) - 6
   \<and> tokenAt (resRoom (updateTokenPosition exGeometry (exRoomTwo 1 0 7 (- 1)) ''a'' (TokNum 0) None)) 0 0
        = Some (mkToken ''T1'' 1 False)
   \<and> tokenAt (resRoom (updateTokenPosition exGeometry (exRoomTwo 1 0 7 (- 1)) ''a'' (TokNum 0) None)) 1 0
        = Some (mkToken ''T1'' 7 False)"
proof -
  have h1: "tokenAt (exRoomTwo 1 0 7 (- 1)) 1 0 = Some (mkToken ''T1'' 7 False)" by code_simp
  have h2: "playerId (players (exRoomTwo 1 0 7 (- 1)) ! 1) \<noteq> ''a''" by code_simp
  have h3: "position (mkToken ''T1'' 7 False)
        \<ge> int (length (getPath exGeometry (color (players (exRoomTwo 1 0 7 (- 1)) ! 1)))) - 6"
    by code_simp
  have mv: "tokenAt (resRoom (updateTokenPosition exGeometry (exRoomTwo 1 0 7 (- 1)) ''a'' (TokNum 0) None)) 0 0
        = Some (mkToken ''T1'' 1 False)" by code_simp
  from no_capture_of_token_in_own_home_stretch [OF h1 h2 disjI1 [OF h3]]
  have "tokenAt (resRoom (updateTokenPosition exGeometry (exRoomTwo 1 0 7 (- 1)) ''a'' (TokNum 0) None)) 1 0
        = Some (mkToken ''T1'' 7 False)" .
  with h1 h2 h3 mv show ?thesis by blast
qed

text \<open>
  Claim C6. After \<open>updateTokenPosition\<close>, with \<open>mt\<close> the token of the mover that the request
  names as it stands after the call, a token of another player is unchanged (position and
  finished flag) whenever the cell \<open>mt\<close> stands on is a safe cell, or \<open>mt\<close> stands within
  the last six indices of the mover's path, or the owner of the token has two or more
  tokens on the position of that token.
\<close>

theorem no_capture_on_safe_cell_home_stretch_or_stack:
  assumes mover: "findIndex (\<lambda>p. playerId p = pid) (players r) = Some pi"
    and moved: "tokenAt (resRoom (updateTokenPosition g r pid tokenId clientPos)) pi
                  (nat (resolveTokenIndex tokenId)) = Some mt"
    and opp: "tokenAt r e j = Some t" "playerId (players r ! e) \<noteq> pid"
    and ets: "tokens (players r ! e) = Some ets"
    and prot: "(case at (getPath g (color (players r ! pi))) (position mt) of
                  Some c \<Rightarrow> c \<in> set (safeCells g) | None \<Rightarrow> False)
               \<or> position mt \<ge> int (length (getPath g (color (players r ! pi)))) - 6
               \<or> stackedTokenCount ets (position t) \<ge> 2"
  shows "tokenAt (resRoom (updateTokenPosition g r pid tokenId clientPos)) e j = Some t"
proof (cases "stackedTokenCount ets (position t) \<ge> 2")
  case True
  from opp(1) ets have "ets ! j = t" by (auto simp: tokenAt_eq)
  with True ets have "\<not> killable g lc (players r ! e) j" for lc
    by (auto simp: killable_def)
  moreover have "findIndex (\<lambda>p. playerId p = pid) (players r) \<noteq> Some e"
    using findIndex_Some [of "\<lambda>p. playerId p = pid" "players r" e] opp(2) by auto
  ultimately show ?thesis
    using updateTokenPosition_token [OF opp(1), of g pid tokenId clientPos] by blast
next
  case False
  with prot have safe: "(case at (getPath g (color (players r ! pi))) (position mt) of
                  Some c \<Rightarrow> c \<in> set (safeCells g) | None \<Rightarrow> False)
               \<or> position mt \<ge> int (length (getPath g (color (players r ! pi)))) - 6" by blast
  show ?thesis
  proof (cases rule: updateTokenPosition_cases
      [where g = g and r = r and pid = pid and tokenId = tokenId and clientPos = clientPos])
    case reject
    then show ?thesis using opp(1) by simp
  next
    case (accept pi' toks ti)
    let ?fi = "desiredIndex (position (toks ! ti)) (dice r) clientPos"
    let ?r3 = "fst (applyMove g r pi (toks ! ti) ti ?fi)"
    from accept(1) mover have [simp]: "pi' = pi" by simp
    from findIndex_Some [OF mover] have pi: "pi < length (players r)"
      and pidpi: "playerId (players r ! pi) = pid" by simp_all
    from opp(2) pidpi have ne: "e \<noteq> pi" by auto
    have toks: "tokens (players r ! pi) = Some toks" using accept(2) by simp
    have ti: "nat (resolveTokenIndex tokenId) = ti" using accept(3) by simp
    note am = applyMove_effect [OF pi toks accept(4), where g = g and tok = "toks ! ti" and fi = ?fi]
    note cm = commitMove_mover [OF pi toks accept(4), where g = g and tokenId = tokenId
        and tok = "toks ! ti" and prevPos = "position (toks ! ti)" and fi = ?fi]
    have mt: "mt = movedToken g r pi (toks ! ti) ?fi"
      using moved accept(4) pi unfolding accept(8) ti
      by (simp add: tokenAt_eq cm am)
    have "\<forall>mt'. readToken (players ?r3 ! pi) tokenId = Some mt' \<longrightarrow> mt' = mt"
      using accept(3) accept(4)
      by (cases tokenId) (auto simp: readToken_def am mt at_def resolveTokenIndex_def)
    with safe have "resRoom (commitMove g r pi tokenId (toks ! ti) ti (position (toks ! ti)) ?fi) = ?r3"
      by (intro commitMove_protected) (auto simp: am)
    then have "tokenAt (resRoom (updateTokenPosition g r pid tokenId clientPos)) e j = tokenAt ?r3 e j"
      unfolding accept(8) by simp
    also have "\<dots> = tokenAt r e j"
      using am(1) am(2) [OF ne] by (simp add: tokenAt_def at_def)
    finally show ?thesis using opp(1) by simp
  qed
qed

theorem no_capture_on_safe_cell_home_stretch_or_stack_witness:
  "tokenAt (resRoom (updateTokenPosition exGeometry (exRoomTwo 1 1 0 (- 1)) ''a'' (TokNum 0) None)) 0 0
     = Some (mkToken ''T1'' 2 False)
   \<and> at (getPath exGeometry (Some ''blue'')) 2 = Some 2 \<and> 2 \<in> set (safeCells exGeometry)
   \<and> at (getPath exGeometry (Some ''red'')) 0 = Some 2
   \<and> tokenAt (resRoom (updateTokenPosition exGeometry (exRoomTwo 1 1 0 (- 1)) ''a'' (TokNum 0) None)) 1 0
     = Some (mkToken ''T1'' 0 False)
   \<and> tokenAt (resRoom (updateTokenPosition exGeometry (exRoomTwo 1 4 3 (- 1)) ''a'' (TokNum 0) None)) 0 0
     = Some (mkToken ''T1'' 5 False)
   \<and> (5::int) \<ge> int (length (getPath exGeometry (Some ''blue''))) - 6
   \<and> tokenAt (resRoom (updateTokenPosition exGeometry (exRoomTwo 1 4 3 (- 1)) ''a'' (TokNum 0) None)) 1 0
     = Some (mkToken ''T1'' 3 False)
   \<and> tokenAt (resRoom (updateTokenPosition exGeometry (exRoomTwo 1 2 1 1) ''a'' (TokNum 0) None)) 0 0
     = Some (mkToken ''T1'' 3 False)
   \<and> stackedTokenCount (mkTokens 1 1 (- 1) (- 1)) 1 \<ge> 2
   \<and> tokenAt (resRoom (updateTokenPosition exGeometry (exRoomTwo 1 2 1 1) ''a'' (TokNum 0) None)) 1 0
     = Some (mkToken ''T1'' 1 False)"
proof -
  let ?safe = "exRoomTwo 1 1 0 (- 1)" and ?home = "exRoomTwo 1 4 3 (- 1)" and ?stack = "exRoomTwo 1 2 1 1"
  have mover: "findIndex (\<lambda>p. playerId p = ''a'') (players (exRoomTwo d a b1 b2)) = Some 0" for d a b1 b2
    by (simp add: exRoomTwo_def awaiting_def mkRoom_def mkPlayer_def)
  have other: "playerId (players (exRoomTwo d a b1 b2) ! 1) \<noteq> ''a''" for d a b1 b2
    by (simp add: exRoomTwo_def awaiting_def mkRoom_def mkPlayer_def)
  have ets: "tokens (players (exRoomTwo d a b1 b2) ! 1) = Some (mkTokens b1 b2 (- 1) (- 1))" for d a b1 b2
    by (simp add: exRoomTwo_def awaiting_def mkRoom_def mkPlayer_def)
  have col: "color (players (exRoomTwo d a b1 b2) ! 0) = Some ''blue''" for d a b1 b2
    by (simp add: exRoomTwo_def awaiting_def mkRoom_def mkPlayer_def)
  have ti: "nat (resolveTokenIndex (TokNum 0)) = 0" by (simp add: resolveTokenIndex_def)
  have m1: "tokenAt (resRoom (updateTokenPosition exGeometry ?safe ''a'' (TokNum 0) None)) 0 0
     = Some (mkToken ''T1'' 2 False)" by code_simp
  have m2: "tokenAt (resRoom (updateTokenPosition exGeometry ?home ''a'' (TokNum 0) None)) 0 0
     = Some (mkToken ''T1'' 5 False)" by code_simp
  have m3: "tokenAt (resRoom (updateTokenPosition exGeometry ?stack ''a'' (TokNum 0) None)) 0 0
     = Some (mkToken ''T1'' 3 False)" by code_simp
  have o1: "tokenAt ?safe 1 0 = Some (mkToken ''T1'' 0 False)" by code_simp
  have o2: "tokenAt ?home 1 0 = Some (mkToken ''T1'' 3 False)" by code_simp
  have o3: "tokenAt ?stack 1 0 = Some (mkToken ''T1'' 1 False)" by code_simp
  have g1: "at (getPath exGeometry (Some ''blue'')) 2 = Some 2" "2 \<in> set (safeCells exGeometry)"
    "at (getPath exGeometry (Some ''red'')) 0 = Some 2" by code_simp+
  have g2: "(5::int) \<ge> int (length (getPath exGeometry (Some ''blue''))) - 6" by code_simp
  have g3: "stackedTokenCount (mkTokens 1 1 (- 1) (- 1)) 1 \<ge> 2" by code_simp
  have p1: "tokenAt (resRoom (updateTokenPosition exGeometry ?safe ''a'' (TokNum 0) None)) 1 0
     = Some (mkToken ''T1'' 0 False)"
    by (rule no_capture_on_safe_cell_home_stretch_or_stack
          [OF mover _ o1 other ets, where mt = "mkToken ''T1'' 2 False"])
       (use m1 g1 in \<open>simp_all add: ti col mkToken_def\<close>)
  have p2: "tokenAt (resRoom (updateTokenPosition exGeometry ?home ''a'' (TokNum 0) None)) 1 0
     = Some (mkToken ''T1'' 3 False)"
    by (rule no_capture_on_safe_cell_home_stretch_or_stack
          [OF mover _ o2 other ets, where mt = "mkToken ''T1'' 5 False"])
       (use m2 g2 in \<open>simp_all add: ti col mkToken_def\<close>)
  have p3: "tokenAt (resRoom (updateTokenPosition exGeometry ?stack ''a'' (TokNum 0) None)) 1 0
     = Some (mkToken ''T1'' 1 False)"
    by (rule no_capture_on_safe_cell_home_stretch_or_stack
          [OF mover _ o3 other ets, where mt = "mkToken ''T1'' 3 False"])
       (use m3 g3 in \<open>simp_all add: ti col mkToken_def\<close>)
  from m1 m2 m3 g1 g2 g3 p1 p2 p3 show ?thesis by blast
qed

section \<open>Finished tokens\<close>

text \<open>
  Claim C3. A token whose finished flag is set is the same token (position and flag)
  after \<open>updateTokenPosition\<close> (which contains the capture check), after \<open>rollDice\<close>
  (also after the callback of its timer alone, on any room) and after \<open>moveDone\<close>; a
  request to move it leaves the whole room as it is. The flag of an
  unfinished token is set only by a call that leaves the token on the last index of its
  path, and a token that a call brings to the last index of a non-empty path is finished.
\<close>

theorem finished_token_is_frozen:
  "(tokenAt r i j = Some t \<and> isFinished t \<longrightarrow>
      tokenAt (resRoom (updateTokenPosition g r pid tokenId clientPos)) i j = Some t
    \<and> (findIndex (\<lambda>p. playerId p = pid) (players r) = Some i \<and> int j = resolveTokenIndex tokenId
         \<longrightarrow> resRoom (updateTokenPosition g r pid tokenId clientPos) = r)
    \<and> tokenAt (resRoom (rollDice r sid rnd cheat :: 'c result)) i j = Some t
    \<and> tokenAt (fst (rollDiceTimeout r ci diceValue :: room \<times> 'c event list)) i j = Some t
    \<and> tokenAt (resRoom (moveDone r pid' tokenId' noExtraTurnOn6 :: 'c result)) i j = Some t)
   \<and> (tokenAt r i j = Some t \<and> \<not> isFinished t
        \<and> tokenAt (resRoom (updateTokenPosition g r pid tokenId clientPos)) i j = Some t' \<longrightarrow>
        (isFinished t' \<longrightarrow> position t' = int (length (getPath g (color (players r ! i)))) - 1)
      \<and> (t' \<noteq> t \<and> position t' = int (length (getPath g (color (players r ! i)))) - 1
           \<and> 0 \<le> position t' \<longrightarrow> isFinished t'))"
proof (intro conjI impI)
  assume a: "tokenAt r i j = Some t \<and> isFinished t"
  then have nk: "\<not> killable g lc (players r ! i) j" for lc
    by (auto simp: killable_def tokenAt_eq)
  from a updateTokenPosition_token [of r i j t g pid tokenId clientPos] nk
  show "tokenAt (resRoom (updateTokenPosition g r pid tokenId clientPos)) i j = Some t" by blast
  show "tokenAt (resRoom (rollDice r sid rnd cheat :: 'c result)) i j = Some t"
    using a by (simp add: rollDice_tokenAt)
  show "tokenAt (fst (rollDiceTimeout r ci diceValue :: room \<times> 'c event list)) i j = Some t"
    using a by (simp add: rollDiceTimeout_tokenAt)
  show "tokenAt (resRoom (moveDone r pid' tokenId' noExtraTurnOn6 :: 'c result)) i j = Some t"
    using a by (simp add: moveDone_tokenAt)
  assume m: "findIndex (\<lambda>p. playerId p = pid) (players r) = Some i \<and> int j = resolveTokenIndex tokenId"
  show "resRoom (updateTokenPosition g r pid tokenId clientPos) = r"
  proof (cases rule: updateTokenPosition_cases
      [where g = g and r = r and pid = pid and tokenId = tokenId and clientPos = clientPos])
    case reject
    then show ?thesis .
  next
    case (accept pi toks ti)
    with m have "pi = i" "ti = j" by simp_all
    with accept(2,5) a show ?thesis by (auto simp: tokenAt_eq)
  qed
next
  assume b: "tokenAt r i j = Some t \<and> \<not> isFinished t
        \<and> tokenAt (resRoom (updateTokenPosition g r pid tokenId clientPos)) i j = Some t'"
  from b updateTokenPosition_token [of r i j t g pid tokenId clientPos]
  have c: "t' = t \<or> t' = killedToken t
         \<or> t' = movedToken g r i t (desiredIndex (position t) (dice r) clientPos)"
    by auto
  {
    assume "isFinished t'"
    with b c show "position t' = int (length (getPath g (color (players r ! i)))) - 1"
      by (auto simp: killedToken_def movedToken_def split: if_splits)
  }
  {
    assume "t' \<noteq> t \<and> position t' = int (length (getPath g (color (players r ! i)))) - 1
           \<and> 0 \<le> position t'"
    with b c show "isFinished t'"
      by (auto simp: killedToken_def movedToken_def split: if_splits)
  }
qed

theorem finished_token_is_frozen_witness:
  "tokenAt exRoomFin 0 0 = Some (mkToken ''T1'' 10 True)
   \<and> isFinished (mkToken ''T1'' 10 True)
   \<and> findIndex (\<lambda>p. playerId p = ''a'') (players exRoomFin) = Some 0
   \<and> resRoom (updateTokenPosition exGeometry exRoomFin ''a'' (TokNum 0) (Some 3)) = exRoomFin
   \<and> tokenAt (resRoom (rollDice exRoomFin ''a'' 5 None :: nat result)) 0 0 = Some (mkToken ''T1'' 10 True)
   \<and> tokenAt (resRoom (moveDone exRoomFin ''a'' TokOther False :: nat result)) 0 0
        = Some (mkToken ''T1'' 10 True)
   \<and> tokenAt (exRoomTwo 1 9 1 (- 1)) 0 0 = Some (mkToken ''T1'' 9 False)
   \<and> tokenAt (resRoom (updateTokenPosition exGeometry (exRoomTwo 1 9 1 (- 1)) ''a'' (TokNum 0) None)) 0 0
        = Some (mkToken ''T1'' 10 True)
   \<and> int (length (getPath exGeometry (color (players (exRoomTwo 1 9 1 (- 1)) ! 0)))) - 1 = 10"
proof -
  have h1: "tokenAt exRoomFin 0 0 = Some (mkToken ''T1'' 10 True)" by code_simp
  have h2: "isFinished (mkToken ''T1'' 10 True)" by code_simp
  have h3: "findIndex (\<lambda>p. playerId p = ''a'') (players exRoomFin) = Some 0" by code_simp
  have h4: "int 0 = resolveTokenIndex (TokNum 0)" by code_simp
  have k1: "tokenAt (exRoomTwo 1 9 1 (- 1)) 0 0 = Some (mkToken ''T1'' 9 False)" by code_simp
  have k2: "\<not> isFinished (mkToken ''T1'' 9 False)" by code_simp
  have k3: "tokenAt (resRoom (updateTokenPosition exGeometry (exRoomTwo 1 9 1 (- 1)) ''a'' (TokNum 0) None)) 0 0
        = Some (mkToken ''T1'' 10 True)" by code_simp
  have k4: "isFinished (mkToken ''T1'' 10 True)" by code_simp
  have k5: "position (mkToken ''T1'' 10 True) = 10" by code_simp
  note thm1 = finished_token_is_frozen
      [where r = exRoomFin and i = 0 and j = 0 and t = "mkToken ''T1'' 10 True" and g = exGeometry
         and pid = "''a''" and tokenId = "TokNum 0" and clientPos = "Some 3" and sid = "''a''"
         and rnd = 5 and cheat = None and pid' = "''a''" and tokenId' = TokOther
         and ?noExtraTurnOn6.0 = False and ?'c = nat]
  note thm2 = finished_token_is_frozen
      [where r = "exRoomTwo 1 9 1 (- 1)" and i = 0 and j = 0 and t = "mkToken ''T1'' 9 False"
         and g = exGeometry and pid = "''a''" and tokenId = "TokNum 0" and clientPos = None
         and t' = "mkToken ''T1'' 10 True" and ?'c = nat]
  from thm1 h1 h2 h3 h4 have
    a: "resRoom (updateTokenPosition exGeometry exRoomFin ''a'' (TokNum 0) (Some 3)) = exRoomFin"
    and b: "tokenAt (resRoom (rollDice exRoomFin ''a'' 5 None :: nat result)) 0 0 = Some (mkToken ''T1'' 10 True)"
    and c: "tokenAt (resRoom (moveDone exRoomFin ''a'' TokOther False :: nat result)) 0 0
        = Some (mkToken ''T1'' 10 True)"
    by blast+
  from thm2 k1 k2 k3 k4 have
    "position (mkToken ''T1'' 10 True)
       = int (length (getPath exGeometry (color (players (exRoomTwo 1 9 1 (- 1)) ! 0)))) - 1"
    by blast
  with k5 have d: "int (length (getPath exGeometry (color (players (exRoomTwo 1 9 1 (- 1)) ! 0)))) - 1 = 10"
    by simp
  from h1 h2 h3 a b c k1 k3 d show ?thesis by blast
qed

section \<open>Destinations\<close>

text \<open>
  Claim C2. When the destination the server computes for the token named in the request
  (previous position plus dice on the board, index 0 from the base on a six) is beyond
  the last index of the mover's path, \<open>updateTokenPosition\<close> leaves the room exactly as it
  was, and, the turn index naming a player, it answers with one error message.
\<close>

theorem overshoot_is_rejected_without_change:
  assumes mover: "findIndex (\<lambda>p. playerId p = pid) (players r) = Some pi"
    and toks: "tokens (players r ! pi) = Some toks"
    and ti: "0 \<le> resolveTokenIndex tokenId" "resolveTokenIndex tokenId < int (length toks)"
    and prev: "prevPos = position (toks ! nat (resolveTokenIndex tokenId))"
    and over: "(prevPos \<ge> 0 \<and> prevPos + dice r > int (length (getPath g (color (players r ! pi)))) - 1)
             \<or> (prevPos = - 1 \<and> dice r = 6 \<and> 0 > int (length (getPath g (color (players r ! pi)))) - 1)"
  shows "resRoom (updateTokenPosition g r pid tokenId clientPos) = r
       \<and> (turnIndex r < length (players r) \<longrightarrow>
            (\<exists>msg. updateTokenPosition g r pid tokenId clientPos = Done r [ErrorMessage msg]))"
proof -
  from over prev have di: "desiredIndex (position (toks ! nat (resolveTokenIndex tokenId))) (dice r) clientPos
            > int (length (getPath g (color (players r ! pi)))) - 1"
    by (auto simp: desiredIndex_def)
  show ?thesis
    using mover toks ti di
    by (auto simp: updateTokenPosition_def Let_def at_def split: option.splits)
qed

theorem overshoot_is_rejected_without_change_witness:
  "findIndex (\<lambda>p. playerId p = ''a'') (players (exRoomTwo 3 8 1 (- 1))) = Some 0
   \<and> tokens (players (exRoomTwo 3 8 1 (- 1)) ! 0) = Some (mkTokens 8 (- 1) (- 1) (- 1))
   \<and> position (mkTokens 8 (- 1) (- 1) (- 1) ! nat (resolveTokenIndex (TokNum 0))) = 8
   \<and> 8 + dice (exRoomTwo 3 8 1 (- 1))
        > int (length (getPath exGeometry (color (players (exRoomTwo 3 8 1 (- 1)) ! 0)))) - 1
   \<and> updateTokenPosition exGeometry (exRoomTwo 3 8 1 (- 1)) ''a'' (TokNum 0) (Some 9)
        = Done (exRoomTwo 3 8 1 (- 1)) [ErrorMessage ''Invalid move: must roll exact number to enter home'']"
proof -
  let ?r = "exRoomTwo 3 8 1 (- 1)"
  have h1: "findIndex (\<lambda>p. playerId p = ''a'') (players ?r) = Some 0" by code_simp
  have h2: "tokens (players ?r ! 0) = Some (mkTokens 8 (- 1) (- 1) (- 1))" by code_simp
  have h3: "0 \<le> resolveTokenIndex (TokNum 0)"
    "resolveTokenIndex (TokNum 0) < int (length (mkTokens 8 (- 1) (- 1) (- 1)))" by code_simp+
  have h4: "8 = position (mkTokens 8 (- 1) (- 1) (- 1) ! nat (resolveTokenIndex (TokNum 0)))"
    by code_simp
  have h5: "8 + dice ?r > int (length (getPath exGeometry (color (players ?r ! 0)))) - 1"
    by code_simp
  have h6: "turnIndex ?r < length (players ?r)" by code_simp
  have ev: "updateTokenPosition exGeometry ?r ''a'' (TokNum 0) (Some 9)
        = Done ?r [ErrorMessage ''Invalid move: must roll exact number to enter home'']"
    by code_simp
  from overshoot_is_rejected_without_change [OF h1 h2 h3 h4, of exGeometry "Some 9"] h5 h6
  have "resRoom (updateTokenPosition exGeometry ?r ''a'' (TokNum 0) (Some 9)) = ?r" by simp
  with h1 h2 h4 h5 ev show ?thesis by simp
qed


text \<open>
  Claim C1 says that a token at the base moves only on a six, and never to the position
  the client sent. In the room below the dice shows 3, the token is at the base and the
  client sends position 4: the move is accepted and the token stands on index 4.
\<close>

theorem base_token_enters_without_a_six:
  "tokenAt (exRoomTwo 3 (- 1) 1 (- 1)) 0 0 = Some (mkToken ''T1'' (- 1) False)
   \<and> dice (exRoomTwo 3 (- 1) 1 (- 1)) = 3
   \<and> tokenAt (resRoom (updateTokenPosition exGeometry (exRoomTwo 3 (- 1) 1 (- 1)) ''a'' (TokNum 0) (Some 4)))
        0 0 = Some (mkToken ''T1'' 4 False)
   \<and> moveValidated (resRoom (updateTokenPosition exGeometry (exRoomTwo 3 (- 1) 1 (- 1)) ''a'' (TokNum 0)
        (Some 4))) = Some True"
  by code_simp

text \<open>
  Claim C1 as amended. For a request that passes the guards of the handler (the mover is
  the player whose turn it is, a move is awaited) and names an unfinished token at the
  base: on a six the destination is index 0; on any other dice the destination is the
  position the client sent when it is a number, and \<open>-1\<close> otherwise. A destination beyond
  the last index of the path is rejected with the room unchanged; any other is written to
  the token and the move counts as validated.
\<close>

theorem base_token_destination:
  assumes mover: "findIndex (\<lambda>p. playerId p = pid) (players r) = Some pi"
    and turn: "at (players r) (int (turnIndex r)) = Some cp" "playerId cp = pid"
    and aw: "awaitingMove r"
    and tk: "tokenAt r pi (nat (resolveTokenIndex tokenId)) = Some t" "0 \<le> resolveTokenIndex tokenId"
    and base: "position t = - 1" "\<not> isFinished t"
  shows "let dest = (if dice r = 6 then 0 else case clientPos of Some p \<Rightarrow> p | None \<Rightarrow> - 1);
             res = updateTokenPosition g r pid tokenId clientPos
         in if dest > int (length (getPath g (color (players r ! pi)))) - 1
            then res = Done r [ErrorMessage ''Invalid move: must roll exact number to enter home'']
            else map_option position (tokenAt (resRoom res) pi (nat (resolveTokenIndex tokenId)))
                   = Some dest
                 \<and> moveValidated (resRoom res) = Some True"
proof -
  let ?ti = "nat (resolveTokenIndex tokenId)"
  let ?dest = "if dice r = 6 then 0 else case clientPos of Some p \<Rightarrow> p | None \<Rightarrow> - 1"
  from tk(1) obtain toks where pi: "pi < length (players r)"
    and toks: "tokens (players r ! pi) = Some toks" and til: "?ti < length toks"
    and tt: "toks ! ?ti = t" by (auto simp: tokenAt_eq)
  have di: "desiredIndex (position t) (dice r) clientPos = ?dest"
    using base by (simp add: desiredIndex_def)
  have rng: "resolveTokenIndex tokenId < int (length toks)" using til tk(2) by simp
  have upd: "updateTokenPosition g r pid tokenId clientPos =
           (if ?dest > int (length (getPath g (color (players r ! pi)))) - 1
            then Done r [ErrorMessage ''Invalid move: must roll exact number to enter home'']
            else commitMove g r pi tokenId t ?ti (position t) ?dest)"
    using updateTokenPosition_guarded [OF mover turn aw toks tk(2) rng, of clientPos g] base tt di
    by (simp add: Let_def)
  show ?thesis
  proof (cases "?dest > int (length (getPath g (color (players r ! pi)))) - 1")
    case True
    then show ?thesis using upd by (simp add: Let_def)
  next
    case False
    note am = applyMove_effect [OF pi toks til, where g = g and tok = t and fi = ?dest]
    note cm = commitMove_mover [OF pi toks til, where g = g and tokenId = tokenId
        and tok = t and prevPos = "position t" and fi = ?dest]
    have "tokenAt (resRoom (commitMove g r pi tokenId t ?ti (position t) ?dest)) pi ?ti
            = Some (movedToken g r pi t ?dest)"
      using pi til by (simp add: tokenAt_eq cm am)
    moreover have "position (movedToken g r pi t ?dest) = ?dest" by (simp add: movedToken_def)
    ultimately show ?thesis using False upd cm(3) by (simp add: Let_def)
  qed
qed

theorem base_token_destination_witness:
  "findIndex (\<lambda>p. playerId p = ''a'') (players (exRoomTwo 3 (- 1) 1 (- 1))) = Some 0
   \<and> map_option playerId (at (players (exRoomTwo 3 (- 1) 1 (- 1)))
        (int (turnIndex (exRoomTwo 3 (- 1) 1 (- 1))))) = Some ''a''
   \<and> awaitingMove (exRoomTwo 3 (- 1) 1 (- 1))
   \<and> tokenAt (exRoomTwo 3 (- 1) 1 (- 1)) 0 (nat (resolveTokenIndex (TokNum 0)))
        = Some (mkToken ''T1'' (- 1) False)
   \<and> map_option position (tokenAt (resRoom (updateTokenPosition exGeometry (exRoomTwo 3 (- 1) 1 (- 1))
        ''a'' (TokNum 0) (Some 4))) 0 (nat (resolveTokenIndex (TokNum 0)))) = Some 4
   \<and> map_option position (tokenAt (resRoom (updateTokenPosition exGeometry (exRoomTwo 6 (- 1) 1 (- 1))
        ''a'' (TokNum 0) (Some 4))) 0 (nat (resolveTokenIndex (TokNum 0)))) = Some 0"
proof -
  let ?r = "exRoomTwo 3 (- 1) 1 (- 1)" and ?s = "exRoomTwo 6 (- 1) 1 (- 1)"
  let ?cp = "mkPlayer ''a'' ''Ann'' ''blue'' (mkTokens (- 1) (- 1) (- 1) (- 1)) 0"
  have h1: "findIndex (\<lambda>p. playerId p = ''a'') (players (exRoomTwo d (- 1) 1 (- 1))) = Some 0" for d
    by (simp add: exRoomTwo_def awaiting_def mkRoom_def mkPlayer_def)
  have h2: "at (players (exRoomTwo d (- 1) 1 (- 1))) (int (turnIndex (exRoomTwo d (- 1) 1 (- 1)))) = Some ?cp" for d
    by (simp add: exRoomTwo_def awaiting_def mkRoom_def at_def)
  have h3: "playerId ?cp = ''a''" by (simp add: mkPlayer_def)
  have h4: "awaitingMove (exRoomTwo d (- 1) 1 (- 1))" for d
    by (simp add: exRoomTwo_def awaiting_def)
  have h5: "tokenAt (exRoomTwo d (- 1) 1 (- 1)) 0 (nat (resolveTokenIndex (TokNum 0)))
              = Some (mkToken ''T1'' (- 1) False)" for d
    by (simp add: exRoomTwo_def awaiting_def mkRoom_def mkPlayer_def mkTokens_def tokenAt_def at_def
        resolveTokenIndex_def)
  have h6: "0 \<le> resolveTokenIndex (TokNum 0)" by (simp add: resolveTokenIndex_def)
  have h7: "position (mkToken ''T1'' (- 1) False) = - 1" "\<not> isFinished (mkToken ''T1'' (- 1) False)"
    by (simp_all add: mkToken_def)
  have d3: "dice ?r = 3" and d6: "dice ?s = 6"
    by (simp_all add: exRoomTwo_def awaiting_def mkRoom_def)
  have len: "int (length (getPath exGeometry (color (players (exRoomTwo d (- 1) 1 (- 1)) ! 0)))) - 1 = 10" for d
    by (simp add: exRoomTwo_def awaiting_def mkRoom_def mkPlayer_def exGeometry_def)
  from base_token_destination [OF h1 [of 3] h2 [of 3] h3 h4 [of 3] h5 [of 3] h6 h7,
      where g = exGeometry and clientPos = "Some 4"]
  have a: "map_option position (tokenAt (resRoom (updateTokenPosition exGeometry ?r
        ''a'' (TokNum 0) (Some 4))) 0 (nat (resolveTokenIndex (TokNum 0)))) = Some 4"
    by (simp add: Let_def d3 len)
  from base_token_destination [OF h1 [of 6] h2 [of 6] h3 h4 [of 6] h5 [of 6] h6 h7,
      where g = exGeometry and clientPos = "Some 4"]
  have b: "map_option position (tokenAt (resRoom (updateTokenPosition exGeometry ?s
        ''a'' (TokNum 0) (Some 4))) 0 (nat (resolveTokenIndex (TokNum 0)))) = Some 0"
    by (simp add: Let_def d6 len)
  from h1 [of 3] h2 [of 3] h3 h4 [of 3] h5 [of 3] a b show ?thesis by simp
qed

section \<open>The win condition\<close>

lemma length_filter_enumerate:
  "length (filter (\<lambda>x. P (snd x)) (enumerate n xs)) = length (filter P xs)"
  by (induction xs arbitrary: n) simp_all

lemma length_finishedPlayers:
  "length (finishedPlayers r) = length (filter allFinished (players r))"
proof -
  have "length (finishedPlayers r)
          = length (filter (\<lambda>x. allFinished (snd x)) (enumerate 0 (players r)))"
    by (simp add: finishedPlayers_def filter_map o_def case_prod_beta)
  then show ?thesis by (simp add: length_filter_enumerate)
qed

lemma finishedPlayers_member:
  assumes "w \<in> set (finishedPlayers r)"
  shows "allFinished (wePlayer w) \<and> at (players r) (int (weIndex w)) = Some (wePlayer w)"
proof -
  from assms obtain i p where ip: "(i, p) \<in> set (enumerate 0 (players r))"
    and w: "w = \<lparr>wePlayer = p, weIndex = i, weAllFinished = allFinished p\<rparr>" and f: "weAllFinished w"
    by (auto simp: finishedPlayers_def)
  from ip have "i < length (players r)" "players r ! i = p" by (auto simp: in_set_enumerate_eq)
  with w f show ?thesis by (simp add: at_def)
qed

text \<open>
  Claim C7. The threshold is one, two, three for rooms of two, three, four players.
  \<open>checkWinCondition\<close> returns a list exactly when the number of players with all tokens
  finished (of a non-empty token array) is at least the threshold of the room. The list
  is then the first threshold-many entries of the finished players sorted by finish
  position (999 for a player with none recorded), each entry naming a player of the room
  with all tokens finished. The function is a query: it takes the room and returns only
  the list.
\<close>

theorem checkWinCondition_threshold_and_order:
  "winnersNeeded 2 = 1 \<and> winnersNeeded 3 = 2 \<and> winnersNeeded 4 = 3
   \<and> (checkWinCondition r \<noteq> None
         \<longleftrightarrow> length (filter allFinished (players r)) \<ge> winnersNeeded (length (players r)))
   \<and> (\<forall>ws. checkWinCondition r = Some ws \<longrightarrow>
          ws = take (winnersNeeded (length (players r))) (sort_key finishKey (finishedPlayers r))
        \<and> length ws = winnersNeeded (length (players r))
        \<and> sorted (map finishKey ws)
        \<and> (\<forall>w \<in> set ws. allFinished (wePlayer w)
                   \<and> at (players r) (int (weIndex w)) = Some (wePlayer w)))"
proof (intro conjI allI impI)
  show "winnersNeeded 2 = 1" "winnersNeeded 3 = 2" "winnersNeeded 4 = 3"
    by (simp_all add: winnersNeeded_def)
  have pos: "winnersNeeded (length (players r)) \<ge> 1" by (simp add: winnersNeeded_def)
  show "checkWinCondition r \<noteq> None
            \<longleftrightarrow> length (filter allFinished (players r)) \<ge> winnersNeeded (length (players r))"
    using pos length_finishedPlayers [of r]
    by (cases "finishedPlayers r") (auto simp: checkWinCondition_def Let_def)
next
  fix ws assume ws: "checkWinCondition r = Some ws"
  then show eq: "ws = take (winnersNeeded (length (players r))) (sort_key finishKey (finishedPlayers r))"
    by (auto simp: checkWinCondition_def Let_def split: if_splits)
  from ws have ge: "length (finishedPlayers r) \<ge> winnersNeeded (length (players r))"
    by (auto simp: checkWinCondition_def Let_def split: if_splits)
  show "length ws = winnersNeeded (length (players r))"
    using ge by (simp add: eq)
  have "sorted (take (winnersNeeded (length (players r)))
                  (map finishKey (sort_key finishKey (finishedPlayers r))))"
    by (intro sorted_wrt_take) simp
  then show "sorted (map finishKey ws)" by (simp add: eq take_map)
next
  fix ws assume ws: "checkWinCondition r = Some ws"
  show "\<forall>w \<in> set ws. allFinished (wePlayer w)
                      \<and> at (players r) (int (weIndex w)) = Some (wePlayer w)"
  proof
    fix w assume w: "w \<in> set ws"
    from ws have "ws = take (winnersNeeded (length (players r))) (sort_key finishKey (finishedPlayers r))"
      by (auto simp: checkWinCondition_def Let_def split: if_splits)
    with w have "w \<in> set (sort_key finishKey (finishedPlayers r))" by (auto dest: in_set_takeD)
    then have "w \<in> set (finishedPlayers r)" by simp
    then show "allFinished (wePlayer w) \<and> at (players r) (int (weIndex w)) = Some (wePlayer w)"
      by (rule finishedPlayers_member)
  qed
qed

theorem checkWinCondition_threshold_and_order_witness:
  "length (players exRoomWon) = 3
   \<and> length (filter allFinished (players exRoomWon)) = 2
   \<and> winnersNeeded (length (players exRoomWon)) = 2
   \<and> checkWinCondition exRoomWon \<noteq> None
   \<and> map_option (map weIndex) (checkWinCondition exRoomWon) = Some [2, 0]
   \<and> map_option (map finishKey) (checkWinCondition exRoomWon) = Some [1, 2]
   \<and> length (filter allFinished (players exRoomSixes)) = 1
   \<and> checkWinCondition exRoomSixes = None"
proof -
  have l: "length (players exRoomWon) = 3" by code_simp
  have f: "length (filter allFinished (players exRoomWon)) = 2" by code_simp
  have n: "winnersNeeded (length (players exRoomWon)) = 2" by code_simp
  have e: "map_option (map weIndex) (checkWinCondition exRoomWon) = Some [2, 0]"
    "map_option (map finishKey) (checkWinCondition exRoomWon) = Some [1, 2]" by code_simp+
  have l2: "length (filter allFinished (players exRoomSixes)) = 1"
    "winnersNeeded (length (players exRoomSixes)) = 2" by code_simp+
  from checkWinCondition_threshold_and_order [of exRoomWon] f n
  have a: "checkWinCondition exRoomWon \<noteq> None" by simp
  from checkWinCondition_threshold_and_order [of exRoomSixes] l2
  have b: "checkWinCondition exRoomSixes = None" by simp
  from l f n e l2 a b show ?thesis by simp
qed

section \<open>The turn after moveDone\<close>

text \<open>
  Claim C5 says that after a completed \<open>moveDone\<close> the turn index names a player with an
  unfinished token unless every player has finished. In the run below blue, on a six,
  moves its last token from index 1 to index 7, where it captures the red token, and then
  from index 7 to the last index; \<open>moveDone\<close> keeps the turn with blue for the capture,
  although all four blue tokens are finished and red and green are still playing. In the
  second room a player without tokens makes the loop throw; the fallback of \<open>moveDone\<close>
  advances the turn by one, to a player who has finished, while the mover has not.
\<close>

theorem capture_then_finish_keeps_turn_of_finished_player:
  "awaitingMove exRoomDouble \<and> turnIndex exRoomDouble = 0 \<and> dice exRoomDouble = 6
   \<and> tokenAt exRoomDouble1 0 0 = Some (mkToken ''T1'' 7 False)
   \<and> tokenAt exRoomDouble1 1 0 = Some (mkToken ''T1'' (- 1) False)
   \<and> killExtraTurn exRoomDouble1
   \<and> tokenAt exRoomDouble2 0 0 = Some (mkToken ''T1'' 13 True)
   \<and> awaitingMove exRoomDouble2 \<and> moveValidated exRoomDouble2 = Some True
   \<and> \<not> awaitingMove exRoomDouble3
   \<and> turnIndex exRoomDouble3 = 0
   \<and> map_option playerDone (at (players exRoomDouble3) 0) = Some True
   \<and> map_option playerDone (at (players exRoomDouble3) 1) = Some False
   \<and> map_option playerDone (at (players exRoomDouble3) 2) = Some False
   \<and> \<not> gameEnded exRoomDouble3
   \<and> awaitingMove exRoomLate \<and> turnIndex exRoomLate = 0 \<and> dice exRoomLate = 3
   \<and> map_option tokens (at (players exRoomLate) 2) = Some None
   \<and> \<not> awaitingMove exRoomLate1
   \<and> turnIndex exRoomLate1 = 1
   \<and> map_option playerDone (at (players exRoomLate1) 1) = Some True
   \<and> map_option playerDone (at (players exRoomLate1) 0) = Some False"
  by code_simp

text \<open>
  Claim C5 as amended. In a room where every player has tokens and the turn order has as
  many entries as there are players, a \<open>moveDone\<close> that is accepted leaves the turn index
  on a player with an unfinished token, unless every player has finished all tokens,
  provided the turn is not kept for a capture by a mover whose tokens are all finished
  (\<open>killExtraTurn\<close> set, \<open>noExtraTurnOn6\<close> not signalled). The loop that looks for the next
  player is a total function (its termination is proved with the bound on the number of
  iterations) and returns an index.
\<close>

theorem moveDone_turn_names_unfinished_player:
  assumes aw: "awaitingMove r"
    and cur: "at (players r) (int (turnIndex r)) = Some cp" "playerId cp = pid"
    and ok: "isPassMove tokenId \<or> moveValidated r \<noteq> Some False"
    and wf: "turnLen r = length (players r)" "\<forall>p \<in> set (players r). tokens p \<noteq> None"
    and nk: "noExtraTurnOn6 \<or> \<not> killExtraTurn r \<or> \<not> playerDone cp"
  shows "players (resRoom (moveDone r pid tokenId noExtraTurnOn6 :: 'c result)) = players r
       \<and> \<not> awaitingMove (resRoom (moveDone r pid tokenId noExtraTurnOn6 :: 'c result))
       \<and> turnIndex (resRoom (moveDone r pid tokenId noExtraTurnOn6 :: 'c result)) < length (players r)
       \<and> (\<not> playerDone (players r ! turnIndex (resRoom (moveDone r pid tokenId noExtraTurnOn6 :: 'c result)))
            \<or> (\<forall>p \<in> set (players r). playerDone p))
       \<and> advanceTurn r \<noteq> None"
proof -
  let ?r1 = "r\<lparr>awaitingMove := False\<rparr>"
  have cur1: "at (players ?r1) (int (turnIndex ?r1)) = Some cp" using cur(1) by simp
  have wf1: "turnLen ?r1 = length (players ?r1)" "\<forall>p \<in> set (players ?r1). tokens p \<noteq> None"
    using wf by simp_all
  have nk1: "noExtraTurnOn6 \<or> \<not> killExtraTurn ?r1 \<or> \<not> playerDone cp" using nk by simp
  from turnLogic_spec [OF cur1 wf1 nk1] obtain r2 where
    r2: "turnLogic ?r1 cp noExtraTurnOn6 = Some r2" "players r2 = players r"
      "\<not> awaitingMove r2" "turnIndex r2 < length (players r)"
      "\<not> playerDone (players r ! turnIndex r2) \<or> (\<forall>p \<in> set (players r). playerDone p)"
    by auto
  from cur(1) have ne: "players r \<noteq> []" by (auto simp: at_def)
  from advanceTurn_spec [OF wf ne] have adv: "advanceTurn r \<noteq> None" by auto
  have "\<exists>r'. moveDone r pid tokenId noExtraTurnOn6 = (Done r' (resEvents (moveDone r pid tokenId noExtraTurnOn6 :: 'c result)) :: 'c result)
          \<and> players r' = players r2 \<and> turnIndex r' = turnIndex r2 \<and> awaitingMove r' = awaitingMove r2"
    using aw cur ok r2(1)
    by (auto simp: moveDone_def Let_def updateRoomTurn_frame split: option.splits)
  then obtain r' where "resRoom (moveDone r pid tokenId noExtraTurnOn6 :: 'c result) = r'"
    "players r' = players r2" "turnIndex r' = turnIndex r2" "awaitingMove r' = awaitingMove r2"
    by (metis resRoom.simps(1))
  with r2 adv show ?thesis by simp
qed

theorem moveDone_turn_names_unfinished_player_witness:
  "awaitingMove (awaiting exRoomSixes)
   \<and> map_option playerId (at (players (awaiting exRoomSixes)) (int (turnIndex (awaiting exRoomSixes))))
        = Some ''a''
   \<and> isPassMove TokOther
   \<and> turnLen (awaiting exRoomSixes) = length (players (awaiting exRoomSixes))
   \<and> \<not> killExtraTurn (awaiting exRoomSixes)
   \<and> map_option playerDone (at (players (awaiting exRoomSixes)) 1) = Some True
   \<and> turnIndex (resRoom (moveDone (awaiting exRoomSixes) ''a'' TokOther False :: nat result)) = 2
   \<and> \<not> playerDone (players (awaiting exRoomSixes) ! 2)"
proof -
  let ?r = "awaiting exRoomSixes" and ?cp = "mkPlayer ''a'' ''Ann'' ''blue'' baseTokens 2"
  have h1: "awaitingMove ?r" by code_simp
  have h2: "at (players ?r) (int (turnIndex ?r)) = Some ?cp" by code_simp
  have h3: "playerId ?cp = ''a''" by code_simp
  have h4: "isPassMove TokOther" by code_simp
  have h5: "turnLen ?r = length (players ?r)" by code_simp
  have h6: "\<forall>p \<in> set (players ?r). tokens p \<noteq> None"
    by (simp add: awaiting_def exRoomSixes_def mkRoom_def mkPlayer_def)
  have h7: "\<not> killExtraTurn ?r" by code_simp
  have e1: "map_option playerDone (at (players ?r) 1) = Some True" by code_simp
  have e2: "turnIndex (resRoom (moveDone ?r ''a'' TokOther False :: nat result)) = 2" by code_simp
  from moveDone_turn_names_unfinished_player
         [OF h1 h2 h3 disjI1 [OF h4] h5 h6 disjI2 [OF disjI1 [OF h7]], of False, where ?'c = nat]
  have "\<not> playerDone (players ?r ! turnIndex (resRoom (moveDone ?r ''a'' TokOther False :: nat result)))
          \<or> (\<forall>p \<in> set (players ?r). playerDone p)" by blast
  moreover have "\<not> (\<forall>p \<in> set (players ?r). playerDone p)"
    by (simp add: awaiting_def exRoomSixes_def mkRoom_def mkPlayer_def playerDone_def
        everyFinished_def baseTokens_def mkToken_def)
  ultimately have "\<not> playerDone (players ?r ! 2)" using e2 by simp
  with h1 h2 h3 h4 h5 h7 e1 e2 show ?thesis by simp
qed

section \<open>The end of a tournament round\<close>

text \<open>
  With five winners the handler opens a next round: two match records are appended and
  \<open>roundScheduled\<close> is emitted.
\<close>

lemma five_winners_open_next_round:
  "map_option (map_option (map mRoundNumber) \<circ> tnMatches)
     (fst (reportMatchResult exTournaments5 exIds ''t5'' ''m5''
             (Some [\<lparr>plPosition = 1, plPlayerId = Some ''w5''\<rparr>])) ''t5'')
     = Some (Some [1, 1, 1, 1, 1, 2, 2])
   \<and> map (\<lambda>e. case e of RoundScheduled n ms \<Rightarrow> map (map tpPlayerId \<circ> mPlayers) ms | _ \<Rightarrow> [])
        (snd (reportMatchResult exTournaments5 exIds ''t5'' ''m5''
                (Some [\<lparr>plPosition = 1, plPlayerId = Some ''w5''\<rparr>])))
     = [[[''w1'', ''w2'', ''w3'', ''w4''], [''w5'']], []]"
  by code_simp

text \<open>
  Claim C8 says that, every match of the round being finished and at most four winners
  collected, the tournament status becomes \<open>finished\<close> and the winners are announced. In
  the store below the only match of the round is reported. With a first place the
  winners are announced, and the status of the tournament stays \<open>in_progress\<close>; with no
  first place in the placements (no winner, which is at most four) nothing is announced:
  the only event is the acknowledgement \<open>No winners to advance\<close>.
\<close>

theorem round_complete_without_status_or_without_announcement:
  "map_option tnStatus (exTournaments ''t1'') = Some ''in_progress''
   \<and> snd (reportMatchResult exTournaments exIds ''t1'' ''m1''
             (Some [\<lparr>plPosition = 1, plPlayerId = Some ''p1''\<rparr>,
                    \<lparr>plPosition = 2, plPlayerId = Some ''p2''\<rparr>]))
        = [TournamentFinished ''t1'' [''p1''], ReportResultAck ''m1'' AckComplete]
   \<and> map_option tnStatus
        (fst (reportMatchResult exTournaments exIds ''t1'' ''m1''
                (Some [\<lparr>plPosition = 1, plPlayerId = Some ''p1''\<rparr>,
                       \<lparr>plPosition = 2, plPlayerId = Some ''p2''\<rparr>])) ''t1'')
        = Some ''in_progress''
   \<and> map_option (map_option (map mStatus) \<circ> tnMatches)
        (fst (reportMatchResult exTournaments exIds ''t1'' ''m1''
                (Some [\<lparr>plPosition = 2, plPlayerId = Some ''p2''\<rparr>])) ''t1'')
        = Some (Some [''finished''])
   \<and> snd (reportMatchResult exTournaments exIds ''t1'' ''m1''
             (Some [\<lparr>plPosition = 2, plPlayerId = Some ''p2''\<rparr>]))
        = [ReportResultAck ''m1'' AckNoWinners]"
  by code_simp

text \<open>
  Claim C8 as amended. When, after the result is recorded, every match of the round of
  the reported match is finished and at most four first-place winners are collected:
  with at least one winner the handler emits \<open>tournamentFinished\<close> with all collected
  winners and acknowledges \<open>Tournament complete!\<close>; with no winner it announces nothing and
  only acknowledges \<open>No winners to advance\<close>. In both cases the store changes only in the
  reported match record (result and status \<open>finished\<close>): no match record is added and the
  status of the tournament is what it was.
\<close>

theorem round_complete_announces_winners:
  assumes nonempty: "tid \<noteq> []" "mid \<noteq> []"
    and t: "mem tid = Some t" and ms: "tnMatches t = Some ms"
    and k: "findIndex (\<lambda>m. mId m = mid) ms = Some k"
    and ms1: "ms1 = ms[k := (ms ! k)\<lparr>mResult := Some pls, mStatus := ''finished''\<rparr>]"
    and rnd: "rnd = filter (\<lambda>m. mRoundNumber m = mRoundNumber (ms ! k)) ms1"
    and fin: "\<forall>m \<in> set rnd. mStatus m = ''finished''"
    and ws: "length (collectWinners rnd) \<le> 4"
  shows "(1 \<le> length (collectWinners rnd) \<longrightarrow>
            snd (reportMatchResult mem ids tid mid (Some pls))
              = [TournamentFinished tid (collectWinners rnd), ReportResultAck mid AckComplete])
       \<and> (length (collectWinners rnd) = 0 \<longrightarrow>
            snd (reportMatchResult mem ids tid mid (Some pls))
              = [ReportResultAck mid AckNoWinners])
       \<and> (\<forall>x. x \<noteq> tid \<longrightarrow> fst (reportMatchResult mem ids tid mid (Some pls)) x = mem x)
       \<and> fst (reportMatchResult mem ids tid mid (Some pls)) tid = Some (t\<lparr>tnMatches := Some ms1\<rparr>)
       \<and> map_option tnStatus (fst (reportMatchResult mem ids tid mid (Some pls)) tid)
           = Some (tnStatus t)
       \<and> length ms1 = length ms"
proof (cases "collectWinners rnd = []")
  case True
  then show ?thesis
    using nonempty t ms k ms1 rnd fin
    by (simp add: reportMatchResult_def Let_def list_all_iff)
next
  case False
  then have "1 \<le> length (collectWinners rnd)" by (cases "collectWinners rnd") simp_all
  then show ?thesis
    using nonempty t ms k ms1 rnd fin ws False
    by (simp add: reportMatchResult_def Let_def list_all_iff)
qed

theorem round_complete_announces_winners_witness:
  "exTournaments ''t1'' = Some \<lparr>tnId = ''t1'', tnName = ''Cup'', tnStatus = ''in_progress'',
                   tnPlayers = [\<lparr>tpPlayerId = ''p1'', tpPlayerName = ''Ann''\<rparr>,
                                \<lparr>tpPlayerId = ''p2'', tpPlayerName = ''Bob''\<rparr>],
                   tnMatches = Some [exMatch]\<rparr>
   \<and> findIndex (\<lambda>m. mId m = ''m1'') [exMatch] = Some 0
   \<and> collectWinners [exMatch\<lparr>mResult := Some [\<lparr>plPosition = 1, plPlayerId = Some ''p1''\<rparr>],
                               mStatus := ''finished''\<rparr>] = [''p1'']
   \<and> snd (reportMatchResult exTournaments exIds ''t1'' ''m1''
             (Some [\<lparr>plPosition = 1, plPlayerId = Some ''p1''\<rparr>]))
        = [TournamentFinished ''t1'' [''p1''], ReportResultAck ''m1'' AckComplete]
   \<and> map_option tnStatus
        (fst (reportMatchResult exTournaments exIds ''t1'' ''m1''
                (Some [\<lparr>plPosition = 1, plPlayerId = Some ''p1''\<rparr>])) ''t1'')
        = Some ''in_progress''
   \<and> collectWinners [exMatch\<lparr>mResult := Some [\<lparr>plPosition = 2, plPlayerId = Some ''p2''\<rparr>],
                               mStatus := ''finished''\<rparr>] = []
   \<and> snd (reportMatchResult exTournaments exIds ''t1'' ''m1''
             (Some [\<lparr>plPosition = 2, plPlayerId = Some ''p2''\<rparr>]))
        = [ReportResultAck ''m1'' AckNoWinners]
   \<and> map_option tnStatus
        (fst (reportMatchResult exTournaments exIds ''t1'' ''m1''
                (Some [\<lparr>plPosition = 2, plPlayerId = Some ''p2''\<rparr>])) ''t1'')
        = Some ''in_progress''"
proof -
  let ?t = "\<lparr>tnId = ''t1'', tnName = ''Cup'', tnStatus = ''in_progress'',
                   tnPlayers = [\<lparr>tpPlayerId = ''p1'', tpPlayerName = ''Ann''\<rparr>,
                                \<lparr>tpPlayerId = ''p2'', tpPlayerName = ''Bob''\<rparr>],
                   tnMatches = Some [exMatch]\<rparr>"
  let ?pls = "[\<lparr>plPosition = 1, plPlayerId = Some ''p1''\<rparr>]"
  let ?ms1 = "[exMatch\<lparr>mResult := Some ?pls, mStatus := ''finished''\<rparr>]"
  let ?qls = "[\<lparr>plPosition = 2, plPlayerId = Some ''p2''\<rparr>]"
  let ?ms2 = "[exMatch\<lparr>mResult := Some ?qls, mStatus := ''finished''\<rparr>]"
  have h1: "''t1'' \<noteq> []" "''m1'' \<noteq> []" by simp_all
  have h2: "exTournaments ''t1'' = Some ?t" by (simp add: exTournaments_def)
  have h3: "tnMatches ?t = Some [exMatch]" by simp
  have h4: "findIndex (\<lambda>m. mId m = ''m1'') [exMatch] = Some 0" by (simp add: exMatch_def)
  have h5: "?ms1 = [exMatch][0 := ([exMatch] ! 0)\<lparr>mResult := Some ?pls, mStatus := ''finished''\<rparr>]"
    by simp
  have h6: "?ms1 = filter (\<lambda>m. mRoundNumber m = mRoundNumber ([exMatch] ! 0)) ?ms1" by simp
  have h7: "\<forall>m \<in> set ?ms1. mStatus m = ''finished''" by simp
  have w: "collectWinners ?ms1 = [''p1'']" by (simp add: exMatch_def)
  have h8: "length (collectWinners ?ms1) \<le> 4" by (simp add: w)
  have h9: "1 \<le> length (collectWinners ?ms1)" by (simp add: w)
  note inst = round_complete_announces_winners
      [where mem = exTournaments and tid = "''t1''" and mid = "''m1''" and t = ?t
         and ms = "[exMatch]" and k = 0 and ?ms1.0 = ?ms1 and rnd = ?ms1 and pls = ?pls
         and ids = exIds]
  from inst [OF h1 h2 h3 h4 h5 h6 h7 h8] h9
  have a: "snd (reportMatchResult exTournaments exIds ''t1'' ''m1'' (Some ?pls))
           = [TournamentFinished ''t1'' (collectWinners ?ms1), ReportResultAck ''m1'' AckComplete]"
    and b: "map_option tnStatus (fst (reportMatchResult exTournaments exIds ''t1'' ''m1'' (Some ?pls)) ''t1'')
           = Some (tnStatus ?t)"
    by blast+
  have j5: "?ms2 = [exMatch][0 := ([exMatch] ! 0)\<lparr>mResult := Some ?qls, mStatus := ''finished''\<rparr>]"
    by simp
  have j6: "?ms2 = filter (\<lambda>m. mRoundNumber m = mRoundNumber ([exMatch] ! 0)) ?ms2" by simp
  have j7: "\<forall>m \<in> set ?ms2. mStatus m = ''finished''" by simp
  have v: "collectWinners ?ms2 = []" by (simp add: exMatch_def)
  have j8: "length (collectWinners ?ms2) \<le> 4" by (simp add: v)
  have j9: "length (collectWinners ?ms2) = 0" by (simp add: v)
  note jnst = round_complete_announces_winners
      [where mem = exTournaments and tid = "''t1''" and mid = "''m1''" and t = ?t
         and ms = "[exMatch]" and k = 0 and ?ms1.0 = ?ms2 and rnd = ?ms2 and pls = ?qls
         and ids = exIds]
  from jnst [OF h1 h2 h3 h4 j5 j6 j7 j8] j9
  have c: "snd (reportMatchResult exTournaments exIds ''t1'' ''m1'' (Some ?qls))
           = [ReportResultAck ''m1'' AckNoWinners]"
    and d: "map_option tnStatus (fst (reportMatchResult exTournaments exIds ''t1'' ''m1'' (Some ?qls)) ''t1'')
           = Some (tnStatus ?t)"
    by blast+
  from a b c d h2 h4 w v show ?thesis by simp
qed

end
